theory Spec2Isabelle
  imports Main "HOL-Library.Sublist" "HOL-Library.Code_Target_Nat"
begin

section \<open>Python strings\<close>

text \<open>
  A Python \<^verbatim>\<open>str\<close> is a sequence of Unicode code points, and \<^verbatim>\<open>len\<close>, slicing,
  \<^verbatim>\<open>index\<close>, \<^verbatim>\<open>split\<close> and \<^verbatim>\<open>replace\<close> all count code points. A string is therefore
  a list of code points, each a natural number; the literals of the source are written
  out by their code points (decimal), with the source text named in the comment.
\<close>

type_synonym uchar = nat
type_synonym ustr = "uchar list"

text \<open>
  \<^verbatim>\<open>str.isspace\<close> on one character; \<^verbatim>\<open>str.strip()\<close> and the class \<^verbatim>\<open>\s\<close> of
  \<^verbatim>\<open>re\<close> (on \<^verbatim>\<open>str\<close> patterns) use the same table of CPython: U+0009..U+000D,
  U+001C..U+0020, U+0085, U+00A0, U+1680, U+2000..U+200A, U+2028, U+2029, U+202F,
  U+205F, U+3000.
\<close>

definition isspace :: "uchar \<Rightarrow> bool" where
  "isspace c \<longleftrightarrow>
     (9 \<le> c \<and> c \<le> 13) \<or> (28 \<le> c \<and> c \<le> 32) \<or> c = 133 \<or> c = 160 \<or> c = 5760 \<or>
     (8192 \<le> c \<and> c \<le> 8202) \<or> c = 8232 \<or> c = 8233 \<or> c = 8239 \<or> c = 8287 \<or> c = 12288"

text \<open>\<^verbatim>\<open>s.strip()\<close>: whitespace dropped at both ends.\<close>

definition py_strip :: "ustr \<Rightarrow> ustr" where
  "py_strip s = rev (dropWhile isspace (rev (dropWhile isspace s)))"

text \<open>\<^verbatim>\<open>s.startswith(p)\<close> and \<^verbatim>\<open>s.endswith(p)\<close>.\<close>

fun startswith :: "ustr \<Rightarrow> ustr \<Rightarrow> bool" where
  "startswith s [] = True"
| "startswith [] (p # ps) = False"
| "startswith (c # cs) (p # ps) = (c = p \<and> startswith cs ps)"

definition endswith :: "ustr \<Rightarrow> ustr \<Rightarrow> bool" where
  "endswith s p = startswith (rev s) (rev p)"

text \<open>\<^verbatim>\<open>s.find(sub)\<close>: the index of the first occurrence, \<open>None\<close> for Python's -1.\<close>

fun py_find :: "ustr \<Rightarrow> ustr \<Rightarrow> nat option" where
  "py_find [] sub = (if sub = [] then Some 0 else None)"
| "py_find (c # cs) sub =
     (if startswith (c # cs) sub then Some 0 else map_option Suc (py_find cs sub))"

text \<open>\<^verbatim>\<open>sub in s\<close>.\<close>

definition contains :: "ustr \<Rightarrow> ustr \<Rightarrow> bool" where
  "contains s sub \<longleftrightarrow> py_find s sub \<noteq> None"

text \<open>
  \<^verbatim>\<open>s.index(sub)\<close> raises ValueError when \<open>sub\<close> does not occur; its one call site is
  guarded by \<^verbatim>\<open>sub in s\<close>, and the model gives the length of \<open>s\<close> in the case that
  cannot arise there.
\<close>

definition py_index :: "ustr \<Rightarrow> ustr \<Rightarrow> nat" where
  "py_index s sub = (case py_find s sub of Some i \<Rightarrow> i | None \<Rightarrow> length s)"

text \<open>
  \<^verbatim>\<open>s.replace(old, '')\<close>: the occurrences of \<open>old\<close> are found from left to right,
  without overlap, and removed in one pass; the result is not scanned again. With an
  empty \<open>old\<close> Python inserts the empty replacement between the characters, so the
  string is unchanged.
\<close>

function py_remove :: "ustr \<Rightarrow> ustr \<Rightarrow> ustr" where
  "py_remove [] old = []"
| "py_remove (c # cs) old =
     (if old \<noteq> [] \<and> startswith (c # cs) old
      then py_remove (drop (length old - 1) cs) old
      else c # py_remove cs old)"
  by pat_completeness auto
termination
  by (relation "measure (\<lambda>(s, old). length s)") auto

text \<open>
  \<^verbatim>\<open>s.split(sep)\<close>: the pieces between the occurrences of \<open>sep\<close>, found from left to
  right without overlap. Python raises ValueError for an empty separator; the source
  only splits at a four-character constant, and the model returns \<open>[s]\<close> for the
  empty separator.
\<close>

function py_split :: "ustr \<Rightarrow> ustr \<Rightarrow> ustr list" where
  "py_split s sep =
     (if sep = [] then [s]
      else case py_find s sep of
             None \<Rightarrow> [s]
           | Some i \<Rightarrow> take i s # py_split (drop (i + length sep) s) sep)"
  by pat_completeness auto
termination
proof (relation "measure (\<lambda>(s, sep). length s)")
  show "wf (measure (\<lambda>(s, sep). length s))" by simp
next
  fix s sep :: ustr and i
  assume sep: "sep \<noteq> []" and found: "py_find s sep = Some i"
  have sw: "startswith xs ys \<Longrightarrow> length ys \<le> length xs" for xs ys :: ustr
    by (induction xs ys rule: startswith.induct) auto
  have "py_find t sep = Some j \<Longrightarrow> j + length sep \<le> length t" for t j
  proof (induction t arbitrary: j)
    case Nil
    then show ?case by (simp split: if_splits)
  next
    case (Cons c cs)
    show ?case
    proof (cases "startswith (c # cs) sep")
      case True
      with Cons.prems sw [of "c # cs" sep] show ?thesis by simp
    next
      case False
      with Cons.prems obtain j' where "py_find cs sep = Some j'" "j = Suc j'" by auto
      with Cons.IH [of j'] show ?thesis by simp
    qed
  qed
  with found have "i + length sep \<le> length s" by blast
  with sep have "length (drop (i + length sep) s) < length s"
    by (cases sep) auto
  then show "((drop (i + length sep) s, sep), (s, sep)) \<in> measure (\<lambda>(s, sep). length s)"
    by simp
qed

declare py_split.simps [simp del]

section \<open>The answer sanitizer (app.py, clean_answer)\<close>

text \<open>U+000A, the line feed.\<close>

abbreviation NL :: uchar where "NL \<equiv> 10"

text \<open>
  \<^verbatim>\<open>re.sub(r'\n\s*\n+', '\n\n', s)\<close>. A match starts at a line feed. The greedy
  \<^verbatim>\<open>\s*\<close> first takes the whole run of whitespace that follows and then gives
  characters back until \<^verbatim>\<open>\n+\<close> can match, so the match ends just after the last line
  feed of that run; when the run holds no line feed there is no match at this place.
  \<open>last_nl cs\<close> is the number of characters of \<open>cs\<close> that the match takes after its
  first line feed. Matches are found from left to right, each is replaced by two line
  feeds, and the scan goes on behind the match.
\<close>

fun last_nl :: "ustr \<Rightarrow> nat option" where
  "last_nl [] = None"
| "last_nl (c # cs) =
     (if isspace c
      then (case last_nl cs of
              Some n \<Rightarrow> Some (Suc n)
            | None \<Rightarrow> if c = NL then Some 1 else None)
      else None)"

function re_sub_blank :: "ustr \<Rightarrow> ustr" where
  "re_sub_blank [] = []"
| "re_sub_blank (c # cs) =
     (if c = NL
      then (case last_nl cs of
              Some n \<Rightarrow> NL # NL # re_sub_blank (drop n cs)
            | None \<Rightarrow> c # re_sub_blank cs)
      else c # re_sub_blank cs)"
  by pat_completeness auto
termination
  by (relation "measure length") auto

text \<open>The literals of \<^verbatim>\<open>clean_answer\<close>, in the order of the source.\<close>

definition end_marker :: ustr where
  \<comment> \<open>U+3010 U+7ED3 U+675F U+3011, the bracketed word "end"\<close>
  "end_marker = [12304, 32467, 26463, 12305]"

definition answer_marker :: ustr where
  \<comment> \<open>U+3010 U+56DE U+7B54 U+3011, the bracketed word "answer"\<close>
  "answer_marker = [12304, 22238, 31572, 12305]"

definition markers :: "ustr list" where
  \<comment> \<open>answer, end, "expert reading:", task, retrieved material, user question, analysis\<close>
  "markers =
    [[12304, 22238, 31572, 12305],
     [12304, 32467, 26463, 12305],
     [19987, 23478, 35299, 35835, 65306],
     [12304, 20219, 21153, 12305],
     [12304, 26816, 32034, 36164, 26009, 12305],
     [12304, 29992, 25143, 38382, 39064, 12305],
     [12304, 32418, 23398, 20998, 26512, 12305]]"

definition yishang :: ustr where
  \<comment> \<open>U+4EE5 U+4E0A, "the above"\<close>
  "yishang = [20197, 19978]"

definition closing_phrases :: "ustr list" where
  "closing_phrases =
    [[22914, 26377, 20854, 20182, 38382, 39064, 25110, 38656, 35201, 36827, 19968, 27493,
      25506, 35752, 65292, 35831, 38543, 26102, 21578, 30693, 12290],
     [22914, 38656, 36827, 19968, 27493, 25506, 35752, 65292, 35831, 38543, 26102, 21578,
      30693, 12290],
     [24076, 26395, 24744, 28385, 24847, 12290],
     [24076, 26395, 23545, 24744, 26377, 25152, 24110, 21161, 12290],
     [20197, 19978, 22238, 31572, 20005, 26684, 36981, 24490, 20102, 24744, 30340, 35201,
      27714, 12290]]"

text \<open>
  The two loops \<^verbatim>\<open>for m in ...: raw_answer = raw_answer.replace(m, '').strip()\<close>.
\<close>

fun strip_all :: "ustr list \<Rightarrow> ustr \<Rightarrow> ustr" where
  "strip_all [] raw = raw"
| "strip_all (m # ms) raw = strip_all ms (py_strip (py_remove raw m))"

text \<open>
  The steps of \<^verbatim>\<open>clean_answer\<close>, one definition for each strategy of the source, each
  working on the result of the one before.
\<close>

definition cut_at_end :: "ustr \<Rightarrow> ustr" where
  "cut_at_end raw =
     (if contains raw end_marker then py_strip (take (py_index raw end_marker) raw) else raw)"

definition keep_last_answer :: "ustr \<Rightarrow> ustr" where
  "keep_last_answer raw =
     (if contains raw answer_marker
      then (let parts = py_split raw answer_marker
            in if length parts > 1 then py_strip (last parts) else raw)
      else raw)"

definition drop_yishang :: "ustr \<Rightarrow> ustr" where
  "drop_yishang raw =
     (if endswith raw yishang then py_strip (take (length raw - 2) raw) else raw)"

definition clean_answer :: "ustr \<Rightarrow> ustr" where
  "clean_answer raw_answer =
     (if raw_answer = [] then raw_answer
      else
        let r1 = cut_at_end raw_answer;
            r2 = keep_last_answer r1;
            r3 = strip_all markers r2;
            r4 = drop_yishang r3;
            r5 = strip_all closing_phrases r4;
            r6 = re_sub_blank r5
        in py_strip r6)"

text \<open>
  A string is a fixed point of \<open>py_strip\<close> when it is empty or neither begins nor
  ends with whitespace.
\<close>

definition stripped :: "ustr \<Rightarrow> bool" where
  "stripped t \<longleftrightarrow> t = [] \<or> (\<not> isspace (hd t) \<and> \<not> isspace (last t))"

section \<open>Documents and the retriever (step3_rag_engine.py, retrieve)\<close>

text \<open>
  A metadata value is what the extraction step writes: the chapter number is an
  integer, the chapter title, the passage type and the origin file are strings.
  Python compares and hashes them by value, and an integer never equals a string.
\<close>

datatype meta_value = IntV int | StrV ustr

record document =
  page_content :: ustr
  metadata :: "string \<rightharpoonup> meta_value"

text \<open>
  An exception \<open>e\<close> is kept by the text that \<^verbatim>\<open>str(e)\<close> gives, which is all the program
  reads of it. A failure of the vector index or of the language model is any such
  value. \<^verbatim>\<open>KeyError('answer')\<close>, raised by the lookup of a missing key \<^verbatim>\<open>answer\<close>, has
  as its text the \<^verbatim>\<open>repr\<close> of the key: the word between two single quotes (U+0027).
\<close>

datatype py_exception = PyException ustr

fun exc_str :: "py_exception \<Rightarrow> ustr" where
  "exc_str (PyException t) = t"

definition key_error_answer :: py_exception where
  "key_error_answer = PyException [39, 97, 110, 115, 119, 101, 114, 39]"

text \<open>
  The engine holds the vector index and the text-generation pipeline; both are outside
  the repository and are parameters here. \<open>similarity_search r query k\<close> is
  \<^verbatim>\<open>self.vectorstore.similarity_search(query, k=k)\<close>, and \<open>llm r prompt\<close> is
  \<^verbatim>\<open>self.llm(prompt)[0]['generated_text']\<close>; either may raise.
\<close>

record rag =
  similarity_search :: "ustr \<Rightarrow> nat \<Rightarrow> py_exception + document list"
  llm :: "ustr \<Rightarrow> py_exception + ustr"

text \<open>\<^verbatim>\<open>doc.metadata.get('chapter', 0)\<close>.\<close>

definition chapter_of :: "document \<Rightarrow> meta_value" where
  "chapter_of doc = (case metadata doc ''chapter'' of Some v \<Rightarrow> v | None \<Rightarrow> IntV 0)"

text \<open>The loop of \<^verbatim>\<open>retrieve\<close> over the candidates, with its two accumulators.\<close>

fun dedup_loop :: "document list \<Rightarrow> meta_value set \<Rightarrow> document list \<Rightarrow> document list" where
  "dedup_loop [] seen_chapters unique_docs = unique_docs"
| "dedup_loop (doc # docs) seen_chapters unique_docs =
     (let ch = chapter_of doc
      in if ch \<notin> seen_chapters
         then dedup_loop docs (insert ch seen_chapters) (unique_docs @ [doc])
         else dedup_loop docs seen_chapters unique_docs)"

text \<open>
  \<^verbatim>\<open>retrieve(query, k)\<close>: an exception of the search is not caught; otherwise the first
  three of the kept documents are returned.
\<close>

definition retrieve :: "rag \<Rightarrow> ustr \<Rightarrow> nat \<Rightarrow> py_exception + document list" where
  "retrieve r query k =
     (case similarity_search r query k of
        Inl e \<Rightarrow> Inl e
      | Inr docs \<Rightarrow> Inr (take 3 (dedup_loop docs {} [])))"

text \<open>
  The entries of a ranked list whose chapter does not occur at an earlier rank, in rank
  order: the reading of "the first occurrence of each distinct chapter number" that the
  retriever is compared with.
\<close>

definition first_occurrences :: "document list \<Rightarrow> document list" where
  "first_occurrences docs =
     map ((!) docs)
       (filter (\<lambda>i. chapter_of (docs ! i) \<notin> set (map chapter_of (take i docs)))
          [0..<length docs])"

section \<open>The prompt assembler and the generation call (step3_rag_engine.py, generate)\<close>

text \<open>\<^verbatim>\<open>str\<close> of a non-negative integer, and of a metadata value, as an f-string renders it.\<close>

fun dec_nat :: "nat \<Rightarrow> ustr" where
  "dec_nat n = (if n < 10 then [48 + n] else dec_nat (n div 10) @ [48 + n mod 10])"

declare dec_nat.simps [simp del]

fun py_str :: "meta_value \<Rightarrow> ustr" where
  "py_str (StrV s) = s"
| "py_str (IntV i) = (if i < 0 then 45 # dec_nat (nat (- i)) else dec_nat (nat i))"

text \<open>\<^verbatim>\<open>sep.join(parts)\<close>.\<close>

fun py_join :: "ustr \<Rightarrow> ustr list \<Rightarrow> ustr" where
  "py_join sep [] = []"
| "py_join sep [p] = p"
| "py_join sep (p # q # ps) = p @ sep @ py_join sep (q # ps)"

text \<open>
  \<^verbatim>\<open>template.format(**kw)\<close> for a template whose fields are plain names (ASCII letters,
  digits and underscores, not starting with a digit): \<^verbatim>\<open>{{\<close> and \<^verbatim>\<open>}}\<close> are the escaped
  braces, and \<^verbatim>\<open>{name}\<close> is replaced by the value of \<open>name\<close>; the values put in are not
  scanned again. The result is \<open>None\<close> where Python raises (a name without a value, a
  lone \<^verbatim>\<open>}\<close>, an unclosed \<^verbatim>\<open>{\<close>) and where a field is not a plain name (indexing,
  attributes, conversions and format specifications are not modelled). The second
  argument is the field name read so far, reversed, while the scan is inside a field.
\<close>

definition ident_char :: "uchar \<Rightarrow> bool" where
  "ident_char c \<longleftrightarrow>
     (48 \<le> c \<and> c \<le> 57) \<or> (65 \<le> c \<and> c \<le> 90) \<or> c = 95 \<or> (97 \<le> c \<and> c \<le> 122)"

definition plain_name :: "ustr \<Rightarrow> bool" where
  "plain_name nm \<longleftrightarrow>
     (case nm of [] \<Rightarrow> False | c # cs \<Rightarrow> (c < 48 \<or> 57 < c) \<and> list_all ident_char nm)"

fun py_format :: "ustr \<Rightarrow> ustr option \<Rightarrow> (ustr \<rightharpoonup> ustr) \<Rightarrow> ustr option" where
  "py_format [] None kw = Some []"
| "py_format [] (Some nm) kw = None"
| "py_format (c # cs) (Some nm) kw =
     (if c = 125
      then (if plain_name (rev nm)
            then (case kw (rev nm) of
                    None \<Rightarrow> None
                  | Some v \<Rightarrow> map_option ((@) v) (py_format cs None kw))
            else None)
      else py_format cs (Some (c # nm)) kw)"
| "py_format (c # cs) None kw =
     (if c = 123
      then (case cs of
              [] \<Rightarrow> None
            | d # ds \<Rightarrow> if d = 123 then map_option ((#) 123) (py_format ds None kw)
                       else py_format cs (Some []) kw)
      else if c = 125
      then (case cs of
              [] \<Rightarrow> None
            | d # ds \<Rightarrow> if d = 125 then map_option ((#) 125) (py_format ds None kw)
                       else None)
      else map_option ((#) c) (py_format cs None kw))"

text \<open>
  \<^verbatim>\<open>self.rag_template\<close>, set by \<^verbatim>\<open>_init_prompts\<close>: the role sentence, a blank line, the
  task paragraph with its three numbered requirements, a blank line, the header of the
  retrieved material, \<^verbatim>\<open>{context}\<close>, a blank line, the header of the user question,
  \<^verbatim>\<open>{question}\<close>, a blank line and the header of the analysis.
\<close>

definition template_head :: ustr where
  "template_head =
    [20320, 26159, 19968, 20301, 31934, 36890, 12298, 32418, 27004, 26790, 12299, 30340,
     36164, 28145, 32418, 23398, 30740, 31350, 32773, 65292, 25797, 38271, 25991, 26412,
     32454, 35835, 19982, 33026, 30746, 25995, 35780, 27880, 35299, 35835, 12290, 10, 10,
     12304, 20219, 21153, 12305, 22522, 20110, 20197, 19979, 26816, 32034, 21040, 30340,
     21407, 25991, 19982, 35780, 27880, 65292, 22238, 31572, 29992, 25143, 30340, 38382,
     39064, 12290, 22238, 31572, 35201, 27714, 65306, 10,
     49, 46, 32, 24517, 39035, 24341, 29992, 20855, 20307, 22238, 30446, 65288, 22914, 34,
     35265, 20110, 31532, 19977, 22238, 34, 65289, 10,
     50, 46, 32, 32467, 21512, 33026, 30746, 25995, 35780, 27880, 65288, 22914, 26377,
     65289, 20998, 26512, 28145, 23618, 21547, 20041, 10,
     51, 46, 32, 25351, 20986, 33402, 26415, 25163, 27861, 65288, 33609, 34503, 28784,
     32447, 12289, 26149, 31179, 31508, 27861, 31561, 65289, 10, 10,
     12304, 26816, 32034, 36164, 26009, 12305, 10]"

definition template_mid :: ustr where
  "template_mid = [10, 10, 12304, 29992, 25143, 38382, 39064, 12305, 10]"

definition template_tail :: ustr where
  "template_tail = [10, 10, 12304, 32418, 23398, 20998, 26512, 12305]"

definition context_key :: ustr where
  \<comment> \<open>the field name "context"\<close>
  "context_key = [99, 111, 110, 116, 101, 120, 116]"

definition question_key :: ustr where
  \<comment> \<open>the field name "question"\<close>
  "question_key = [113, 117, 101, 115, 116, 105, 111, 110]"

definition rag_template :: ustr where
  "rag_template =
     template_head @ [123] @ context_key @ [125] @ template_mid @
     [123] @ question_key @ [125] @ template_tail"

text \<open>
  One rendered passage, the f-string of the loop: \<^verbatim>\<open>[\<close>, the index, \<^verbatim>\<open>] \<close>, the chapter
  title, a full-width opening parenthesis, the type, a full-width closing parenthesis
  and colon, the content cut to 300 characters, and three dots. A passage without a
  type is body text (U+6B63 U+6587); one without a chapter title is \<^verbatim>\<open>unknown\<close>.
\<close>

definition render_part :: "nat \<Rightarrow> document \<Rightarrow> ustr" where
  "render_part i doc =
     (let source = (case metadata doc ''type'' of Some v \<Rightarrow> v | None \<Rightarrow> StrV [27491, 25991]);
          chapter = (case metadata doc ''chapter_title'' of
                       Some v \<Rightarrow> v
                     | None \<Rightarrow> StrV [117, 110, 107, 110, 111, 119, 110]);
          content = take 300 (page_content doc)
      in [91] @ dec_nat i @ [93, 32] @ py_str chapter @ [65288] @ py_str source @
         [65289, 65306] @ content @ [46, 46, 46])"

text \<open>The loop \<^verbatim>\<open>for i, doc in enumerate(docs, 1)\<close> that fills \<^verbatim>\<open>context_parts\<close>.\<close>

fun context_loop :: "nat \<Rightarrow> document list \<Rightarrow> ustr list \<Rightarrow> ustr list" where
  "context_loop i [] context_parts = context_parts"
| "context_loop i (doc # docs) context_parts =
     context_loop (Suc i) docs (context_parts @ [render_part i doc])"

definition build_context :: "document list \<Rightarrow> ustr" where
  "build_context docs = py_join [10, 10] (context_loop 1 docs [])"

text \<open>
  \<^verbatim>\<open>self.rag_template.format(context=context, question=query)\<close>. The template is a
  constant with the two fields \<^verbatim>\<open>{context}\<close> and \<^verbatim>\<open>{question}\<close> and no other brace, so
  the call cannot raise and puts the two values in the places of the two fields;
  \<open>py_format_rag_template\<close> below checks this against the scan of the template.
\<close>

definition build_prompt :: "document list \<Rightarrow> ustr \<Rightarrow> ustr" where
  "build_prompt docs query =
     template_head @ build_context docs @ template_mid @ query @ template_tail"

text \<open>
  The dictionary that \<^verbatim>\<open>generate\<close> returns: the four keys of a successful call, or the
  single key \<^verbatim>\<open>error\<close>.
\<close>

datatype gen_result =
    GenAnswer ustr ustr "document list" ustr
  | GenError ustr

text \<open>
  \<^verbatim>\<open>generate(query)\<close>. Retrieval stands before the \<^verbatim>\<open>try\<close>, so its exception leaves
  \<^verbatim>\<open>generate\<close>; an exception of the model call is caught and its text returned under
  \<^verbatim>\<open>error\<close>. \<^verbatim>\<open>retrieve\<close> is called without \<open>k\<close>, that is with its default 4.
\<close>

definition generate :: "rag \<Rightarrow> ustr \<Rightarrow> py_exception + gen_result" where
  "generate r query =
     (case retrieve r query 4 of
        Inl e \<Rightarrow> Inl e
      | Inr docs \<Rightarrow>
          (let context = build_context docs;
               prompt = build_prompt docs query
           in case llm r prompt of
                Inl e \<Rightarrow> Inr (GenError (exc_str e))
              | Inr response \<Rightarrow>
                  Inr (GenAnswer query
                         (if contains response prompt
                          then py_strip (py_remove response prompt) else response)
                         docs context)))"

section \<open>The session history (app.py, main)\<close>

datatype role = User | Assistant

record cited =
  src_chapter :: meta_value
  src_type :: meta_value
  src_content :: ustr

text \<open>A turn of the history; the key \<^verbatim>\<open>sources\<close> is present only on an answered turn.\<close>

record message =
  msg_role :: role
  msg_content :: ustr
  msg_sources :: "cited list option"

record session_state =
  messages :: "message list"
  quick_question :: "ustr option"

definition cite :: "document \<Rightarrow> cited" where
  "cite d =
     \<lparr> src_chapter = (case metadata d ''chapter_title'' of
                        Some v \<Rightarrow> v | None \<Rightarrow> StrV [26410, 30693]),
       src_type = (case metadata d ''type'' of Some v \<Rightarrow> v | None \<Rightarrow> StrV [27491, 25991]),
       src_content = page_content d \<rparr>"

text \<open>
  The text stored for an answer: the cleaned answer, or the first 500 characters of the
  raw answer when the cleaned one is shorter than 50 and the raw one longer than 100.
\<close>

definition stored_answer :: "ustr \<Rightarrow> ustr" where
  "stored_answer raw_answer =
     (let cleaned_answer = clean_answer raw_answer
      in if length cleaned_answer < 50 \<and> length raw_answer > 100
         then take 500 raw_answer else cleaned_answer)"

definition apology :: ustr where
  \<comment> \<open>"Sorry, consulting the classics met an obstacle:"\<close>
  "apology =
     [25265, 27465, 65292, 26597, 38405, 20856, 31821, 26102, 36935, 21040, 38459, 30861, 65306]"

definition failure_turn :: "py_exception \<Rightarrow> message" where
  "failure_turn e =
     \<lparr> msg_role = Assistant, msg_content = apology @ exc_str e, msg_sources = None \<rparr>"

text \<open>
  The block \<^verbatim>\<open>if submit and user_input:\<close> of \<^verbatim>\<open>main\<close>, as a function of the session
  state. \<open>k_value\<close> is the value of the slider read earlier in \<^verbatim>\<open>main\<close>. The user turn
  is appended first. Inside the \<^verbatim>\<open>try\<close>, \<^verbatim>\<open>result['answer']\<close> raises
  \<^verbatim>\<open>KeyError('answer')\<close> on the dictionary that holds only \<^verbatim>\<open>error\<close>; this and any
  exception leaving \<^verbatim>\<open>generate\<close> reach the handler, which appends the apology. After a
  successful append \<^verbatim>\<open>st.rerun()\<close> ends the script run; the exception it raises for that
  is not an \<^verbatim>\<open>Exception\<close> and passes the handler.
\<close>

definition on_submit :: "rag \<Rightarrow> nat \<Rightarrow> bool \<Rightarrow> ustr \<Rightarrow> session_state \<Rightarrow> session_state" where
  "on_submit r k_value submit user_input st =
     (if submit \<and> user_input \<noteq> []
      then
        let st1 = st\<lparr>quick_question := None\<rparr>;
            st2 = st1\<lparr>messages := messages st1 @
                    [\<lparr> msg_role = User, msg_content = user_input, msg_sources = None \<rparr>]\<rparr>
        in (case generate r user_input of
              Inl e \<Rightarrow> st2\<lparr>messages := messages st2 @ [failure_turn e]\<rparr>
            | Inr (GenError err) \<Rightarrow>
                st2\<lparr>messages := messages st2 @ [failure_turn key_error_answer]\<rparr>
            | Inr (GenAnswer q raw_answer sources context) \<Rightarrow>
                st2\<lparr>messages := messages st2 @
                  [\<lparr> msg_role = Assistant, msg_content = stored_answer raw_answer,
                     msg_sources = Some (map cite sources) \<rparr>]\<rparr>)
      else st)"

section \<open>Example inputs\<close>

text \<open>
  Candidates for the examples: a passage of a given chapter, a passage whose metadata
  has no chapter, the six candidates of chapters 3, 3, 5, 5, 8, 12 of the specification,
  four candidates of which the first and third have no chapter and the second has
  chapter 0, an engine whose search returns the first \<open>k\<close> of a given ranked list and
  whose model call has a given outcome, and an engine with the same search whose model
  returns the prompt followed by a given reply, and an engine whose search raises a
  given exception.
\<close>

definition example_doc :: "int \<Rightarrow> ustr \<Rightarrow> document" where
  "example_doc n c = \<lparr> page_content = c, metadata = [''chapter'' \<mapsto> IntV n] \<rparr>"

definition example_docs :: "document list" where
  "example_docs =
     [example_doc 3 [97], example_doc 3 [98], example_doc 5 [99], example_doc 5 [100],
      example_doc 8 [101], example_doc 12 [102]]"

definition example_rag :: "document list \<Rightarrow> py_exception + ustr \<Rightarrow> rag" where
  "example_rag docs reply =
     \<lparr> similarity_search = (\<lambda>query k. Inr (take k docs)), llm = (\<lambda>prompt. reply) \<rparr>"

definition echo_rag :: "document list \<Rightarrow> ustr \<Rightarrow> rag" where
  "echo_rag docs reply =
     \<lparr> similarity_search = (\<lambda>query k. Inr (take k docs)),
       llm = (\<lambda>prompt. Inr (prompt @ reply)) \<rparr>"

definition broken_rag :: "py_exception \<Rightarrow> rag" where
  "broken_rag e =
     \<lparr> similarity_search = (\<lambda>query k. Inl e), llm = (\<lambda>prompt. Inr []) \<rparr>"

definition example_untagged :: "ustr \<Rightarrow> document" where
  "example_untagged c = \<lparr> page_content = c, metadata = Map.empty \<rparr>"

definition example_mixed :: "document list" where
  "example_mixed =
     [example_untagged [97], example_doc 0 [98], example_untagged [99], example_doc 7 [100]]"

text \<open>
  A passage with a title and a type; a model reply that starts with the end marker and
  is 104 characters long; the state of a new session.
\<close>

definition example_passage :: document where
  "example_passage =
     \<lparr> page_content = [97, 98, 99],
       metadata = [''chapter_title'' \<mapsto> StrV [84], ''type'' \<mapsto> StrV [116]] \<rparr>"

definition example_reply :: ustr where
  "example_reply = end_marker @ replicate 100 97"

definition empty_session :: session_state where
  "empty_session = \<lparr> messages = [], quick_question = None \<rparr>"

section \<open>The sanitizer never lengthens its input\<close>

lemma length_py_strip: "length (py_strip s) \<le> length s"
proof -
  have "length (dropWhile isspace (rev (dropWhile isspace s))) \<le> length (rev (dropWhile isspace s))"
    by (rule length_dropWhile_le)
  also have "\<dots> \<le> length s"
    by (simp add: length_dropWhile_le)
  finally show ?thesis by (simp add: py_strip_def)
qed

lemma length_py_remove: "length (py_remove s old) \<le> length s"
proof (induction s old rule: py_remove.induct)
  case (1 old)
  show ?case by simp
next
  case (2 c cs old)
  show ?case
  proof (cases "old \<noteq> [] \<and> startswith (c # cs) old")
    case True
    with 2 have "length (py_remove (drop (length old - 1) cs) old) \<le> length cs"
      by (simp add: le_diff_conv trans_le_add1)
    with True show ?thesis by simp
  next
    case False
    with 2 show ?thesis by auto
  qed
qed

lemma length_strip_all: "length (strip_all ms s) \<le> length s"
proof (induction ms arbitrary: s)
  case Nil
  show ?case by simp
next
  case (Cons m ms)
  have "length (strip_all ms (py_strip (py_remove s m))) \<le> length (py_strip (py_remove s m))"
    by (rule Cons.IH)
  also have "\<dots> \<le> length (py_remove s m)" by (rule length_py_strip)
  also have "\<dots> \<le> length s" by (rule length_py_remove)
  finally show ?case by simp
qed

lemma last_nl_bounds: "last_nl cs = Some n \<Longrightarrow> 1 \<le> n \<and> n \<le> length cs"
  by (induction cs arbitrary: n) (auto split: if_splits option.splits)

lemma length_re_sub_blank: "length (re_sub_blank s) \<le> length s"
proof (induction s rule: re_sub_blank.induct)
  case 1
  show ?case by simp
next
  case (2 c cs)
  show ?case
  proof (cases "c = NL")
    case False
    with 2 show ?thesis by simp
  next
    case True
    show ?thesis
    proof (cases "last_nl cs")
      case None
      with True 2 show ?thesis by simp
    next
      case (Some n)
      with True 2 have "length (re_sub_blank (drop n cs)) \<le> length cs - n" by simp
      moreover from Some have "1 \<le> n \<and> n \<le> length cs" by (rule last_nl_bounds)
      ultimately show ?thesis using True Some by auto
    qed
  qed
qed

lemma py_split_nonempty: "py_split s sep \<noteq> []"
  by (subst py_split.simps) (simp split: option.splits)

lemma length_last_py_split: "length (last (py_split s sep)) \<le> length s"
proof (induction s sep rule: py_split.induct)
  case (1 s sep)
  show ?case
  proof (cases "sep = []")
    case True
    then show ?thesis by (subst py_split.simps) simp
  next
    case False
    show ?thesis
    proof (cases "py_find s sep")
      case None
      with False show ?thesis by (subst py_split.simps) simp
    next
      case (Some i)
      with False 1 have "length (last (py_split (drop (i + length sep) s) sep)) \<le> length s"
        by fastforce
      with False Some show ?thesis
        by (subst py_split.simps) (simp add: py_split_nonempty)
    qed
  qed
qed

lemma length_cut_at_end: "length (cut_at_end s) \<le> length s"
proof -
  have "length (py_strip (take n s)) \<le> length s" for n
    using length_py_strip [of "take n s"] by simp
  then show ?thesis by (simp add: cut_at_end_def)
qed

lemma length_keep_last_answer: "length (keep_last_answer s) \<le> length s"
proof -
  have "length (py_strip (last (py_split s answer_marker))) \<le> length s"
    using length_py_strip [of "last (py_split s answer_marker)"]
      length_last_py_split [of s answer_marker] by simp
  then show ?thesis by (simp add: keep_last_answer_def Let_def)
qed

lemma length_drop_yishang: "length (drop_yishang s) \<le> length s"
proof -
  have "length (py_strip (take n s)) \<le> length s" for n
    using length_py_strip [of "take n s"] by simp
  then show ?thesis by (simp add: drop_yishang_def)
qed

text \<open>
  Claim C6. For every input string, the output of \<open>clean_answer\<close> is at most as long as
  the input: cutting at the end marker, keeping the last piece of a split, removing
  markers and phrases, stripping whitespace and collapsing blank lines each keep or
  shorten the text.
\<close>

theorem clean_answer_never_longer: "length (clean_answer raw_answer) \<le> length raw_answer"
proof (cases "raw_answer = []")
  case True
  then show ?thesis by (simp add: clean_answer_def)
next
  case False
  let ?r1 = "cut_at_end raw_answer"
  let ?r2 = "keep_last_answer ?r1"
  let ?r3 = "strip_all markers ?r2"
  let ?r4 = "drop_yishang ?r3"
  let ?r5 = "strip_all closing_phrases ?r4"
  let ?r6 = "re_sub_blank ?r5"
  have "length (py_strip ?r6) \<le> length ?r6" by (rule length_py_strip)
  also have "\<dots> \<le> length ?r5" by (rule length_re_sub_blank)
  also have "\<dots> \<le> length ?r4" by (rule length_strip_all)
  also have "\<dots> \<le> length ?r3" by (rule length_drop_yishang)
  also have "\<dots> \<le> length ?r2" by (rule length_strip_all)
  also have "\<dots> \<le> length ?r1" by (rule length_keep_last_answer)
  also have "\<dots> \<le> length raw_answer" by (rule length_cut_at_end)
  finally show ?thesis using False by (simp add: clean_answer_def Let_def)
qed

section \<open>Cleaning a cleaned answer again\<close>

lemma py_remove_absent: "py_find t m = None \<Longrightarrow> py_remove t m = t"
  by (induction t) (auto split: if_splits)

lemma py_strip_stripped: "stripped t \<Longrightarrow> py_strip t = t"
proof (cases "t = []")
  case True
  then show ?thesis by (simp add: py_strip_def)
next
  case False
  assume "stripped t"
  with False have h: "\<not> isspace (hd t)" and l: "\<not> isspace (last t)"
    by (auto simp: stripped_def)
  from False h have "dropWhile isspace t = t" by (cases t) auto
  moreover from False l have "dropWhile isspace (rev t) = rev t"
    by (cases "rev t") (auto simp: last_rev hd_rev)
  ultimately show ?thesis by (simp add: py_strip_def)
qed

lemma last_dropWhile_nonempty: "dropWhile P xs \<noteq> [] \<Longrightarrow> last (dropWhile P xs) = last xs"
  by (induction xs) (auto split: if_splits)

lemma stripped_py_strip: "stripped (py_strip x)"
proof -
  let ?y = "dropWhile isspace x"
  let ?z = "dropWhile isspace (rev ?y)"
  show ?thesis
  proof (cases "?z = []")
    case True
    then show ?thesis by (simp add: py_strip_def stripped_def)
  next
    case False
    have y: "?y \<noteq> []"
    proof
      assume "?y = []"
      then have "?z = []" by (simp only: rev.simps dropWhile.simps)
      with False show False by contradiction
    qed
    from False have "\<not> isspace (hd ?z)" by (rule hd_dropWhile)
    moreover from False have "last ?z = last (rev ?y)" by (rule last_dropWhile_nonempty)
    with y have "last ?z = hd ?y" by (simp add: last_rev)
    with y have "\<not> isspace (last ?z)" by (simp add: hd_dropWhile)
    ultimately show ?thesis using False
      by (simp add: py_strip_def stripped_def hd_rev last_rev)
  qed
qed

lemma strip_all_absent:
  "stripped t \<Longrightarrow> \<forall>m \<in> set ms. \<not> contains t m \<Longrightarrow> strip_all ms t = t"
  by (induction ms) (auto simp: contains_def py_remove_absent py_strip_stripped)

lemma last_nl_re_sub_None: "last_nl x = None \<Longrightarrow> last_nl (re_sub_blank x) = None"
proof (induction x)
  case Nil
  then show ?case by simp
next
  case (Cons c cs)
  show ?case
  proof (cases "isspace c")
    case False
    then have "c \<noteq> NL" by (auto simp: isspace_def)
    with False show ?thesis by simp
  next
    case True
    with Cons.prems have "last_nl cs = None" and "c \<noteq> NL"
      by (auto split: option.splits if_splits)
    with Cons.IH True show ?thesis by simp
  qed
qed

lemma last_nl_drop: "last_nl cs = Some n \<Longrightarrow> last_nl (drop n cs) = None"
  by (induction cs arbitrary: n) (auto split: if_splits option.splits)

lemma re_sub_blank_idem: "re_sub_blank (re_sub_blank s) = re_sub_blank s"
proof (induction s rule: re_sub_blank.induct)
  case 1
  show ?case by simp
next
  case (2 c cs)
  show ?case
  proof (cases "c = NL")
    case False
    with 2 show ?thesis by simp
  next
    case True
    have sp: "isspace NL" by (simp add: isspace_def)
    show ?thesis
    proof (cases "last_nl cs")
      case None
      then have "last_nl (re_sub_blank cs) = None" by (rule last_nl_re_sub_None)
      with True None 2 show ?thesis by simp
    next
      case (Some n)
      then have "last_nl (drop n cs) = None" by (rule last_nl_drop)
      then have "last_nl (re_sub_blank (drop n cs)) = None" by (rule last_nl_re_sub_None)
      with True Some 2 sp show ?thesis by simp
    qed
  qed
qed

lemma last_nl_append_None: "last_nl (a @ b) = None \<Longrightarrow> last_nl a = None"
  by (induction a) (auto split: if_splits option.splits)


lemma fixed_NL_Some:
  assumes fx: "re_sub_blank (NL # cs) = NL # cs" and some: "last_nl cs = Some n"
  shows "\<exists>zs. cs = NL # zs \<and> re_sub_blank zs = zs \<and> last_nl zs = None"
proof -
  from fx some have cs: "cs = NL # re_sub_blank (drop n cs)" by simp
  from some have n: "1 \<le> n \<and> n \<le> length cs" by (rule last_nl_bounds)
  have "length cs = Suc (length (re_sub_blank (drop n cs)))"
    by (subst cs) simp
  moreover have "length (re_sub_blank (drop n cs)) \<le> length cs - n"
    using length_re_sub_blank [of "drop n cs"] by simp
  ultimately have "n = 1" using n by arith
  with cs have cs1: "cs = NL # re_sub_blank (drop 1 cs)" by simp
  then have "drop 1 cs = re_sub_blank (drop 1 cs)"
    by (cases cs) auto
  moreover from some \<open>n = 1\<close> have "last_nl (drop 1 cs) = None"
    using last_nl_drop by blast
  ultimately show ?thesis using cs1 by metis
qed

lemma fixed_tl: "re_sub_blank (c # cs) = c # cs \<Longrightarrow> re_sub_blank cs = cs"
proof (cases "c = NL \<and> last_nl cs \<noteq> None")
  case False
  assume "re_sub_blank (c # cs) = c # cs"
  with False show ?thesis by (auto split: if_splits option.splits)
next
  case True
  assume fx: "re_sub_blank (c # cs) = c # cs"
  from True obtain n where "last_nl cs = Some n" by auto
  with fx True obtain zs where "cs = NL # zs" "re_sub_blank zs = zs" "last_nl zs = None"
    using fixed_NL_Some by blast
  then show ?thesis by simp
qed

lemma fixed_suffix: "re_sub_blank (xs @ ys) = xs @ ys \<Longrightarrow> re_sub_blank ys = ys"
proof (induction xs)
  case Nil
  then show ?case by simp
next
  case (Cons c xs)
  from Cons.prems have "re_sub_blank (c # (xs @ ys)) = c # (xs @ ys)" by simp
  then have "re_sub_blank (xs @ ys) = xs @ ys" by (rule fixed_tl)
  then show ?case by (rule Cons.IH)
qed

lemma fixed_prefix: "re_sub_blank (xs @ ys) = xs @ ys \<Longrightarrow> re_sub_blank xs = xs"
proof (induction "length xs" arbitrary: xs ys rule: less_induct)
  case less
  show ?case
  proof (cases xs)
    case Nil
    then show ?thesis by simp
  next
    case (Cons c xs')
    with less.prems have fx: "re_sub_blank (c # (xs' @ ys)) = c # (xs' @ ys)" by simp
    show ?thesis
    proof (cases "c = NL \<and> last_nl (xs' @ ys) \<noteq> None")
      case False
      with fx have tl: "re_sub_blank (xs' @ ys) = xs' @ ys"
        by (auto split: if_splits option.splits)
      with less.hyps [of xs' ys] Cons have xs': "re_sub_blank xs' = xs'" by simp
      show ?thesis
      proof (cases "c = NL")
        case True
        with False have "last_nl xs' = None" by (simp add: last_nl_append_None)
        with True xs' Cons show ?thesis by simp
      next
        case c: False
        with xs' Cons show ?thesis by simp
      qed
    next
      case True
      then obtain n where "last_nl (xs' @ ys) = Some n" by auto
      with fx True obtain zs where
        zs: "xs' @ ys = NL # zs" "re_sub_blank zs = zs" "last_nl zs = None"
        using fixed_NL_Some by blast
      have sp: "isspace NL" by (simp add: isspace_def)
      show ?thesis
      proof (cases xs')
        case Nil
        with True Cons show ?thesis by simp
      next
        case inner: (Cons d xs'')
        with zs have d: "d = NL" and app: "xs'' @ ys = zs" by auto
        from app zs have "re_sub_blank (xs'' @ ys) = xs'' @ ys" by simp
        with less.hyps [of xs'' ys] Cons inner have "re_sub_blank xs'' = xs''" by simp
        moreover from app zs have "last_nl (xs'' @ ys) = None" by simp
        then have "last_nl xs'' = None" by (rule last_nl_append_None)
        ultimately show ?thesis using True Cons inner d sp by simp
      qed
    qed
  qed
qed

lemma fixed_py_strip:
  assumes "re_sub_blank t = t"
  shows "re_sub_blank (py_strip t) = py_strip t"
proof -
  let ?y = "dropWhile isspace t"
  have "t = takeWhile isspace t @ ?y" by simp
  with assms have "re_sub_blank (takeWhile isspace t @ ?y) = takeWhile isspace t @ ?y"
    by simp
  then have y: "re_sub_blank ?y = ?y" by (rule fixed_suffix)
  have "rev (rev ?y) = rev (takeWhile isspace (rev ?y) @ dropWhile isspace (rev ?y))"
    by (simp only: takeWhile_dropWhile_id)
  then have "?y = rev (dropWhile isspace (rev ?y)) @ rev (takeWhile isspace (rev ?y))"
    by (simp only: rev_rev_ident rev_append)
  with y have "re_sub_blank (rev (dropWhile isspace (rev ?y)) @ rev (takeWhile isspace (rev ?y)))
      = rev (dropWhile isspace (rev ?y)) @ rev (takeWhile isspace (rev ?y))"
    by simp
  then have "re_sub_blank (rev (dropWhile isspace (rev ?y))) = rev (dropWhile isspace (rev ?y))"
    by (rule fixed_prefix)
  then show ?thesis by (simp add: py_strip_def)
qed

lemma clean_answer_shape:
  "stripped (clean_answer s) \<and> re_sub_blank (clean_answer s) = clean_answer s"
proof (cases "s = []")
  case True
  then show ?thesis by (simp add: clean_answer_def stripped_def)
next
  case False
  then obtain x where "clean_answer s = py_strip (re_sub_blank x)"
    by (simp add: clean_answer_def Let_def)
  then show ?thesis
    by (simp add: stripped_py_strip fixed_py_strip re_sub_blank_idem)
qed

text \<open>
  Claim C2, as amended. Whenever the cleaned text contains none of the seven marker
  tokens and none of the five closing phrases and does not end in the two characters
  U+4EE5 U+4E0A, cleaning it again returns it unchanged.
\<close>

theorem clean_answer_idempotent_when_clean:
  assumes mk: "\<forall>m \<in> set markers. \<not> contains (clean_answer s) m"
    and ph: "\<forall>p \<in> set closing_phrases. \<not> contains (clean_answer s) p"
    and ys: "\<not> endswith (clean_answer s) yishang"
  shows "clean_answer (clean_answer s) = clean_answer s"
proof -
  let ?t = "clean_answer s"
  from clean_answer_shape have st: "stripped ?t" and fx: "re_sub_blank ?t = ?t" by auto
  from mk have "\<not> contains ?t end_marker" "\<not> contains ?t answer_marker"
    by (simp_all add: markers_def end_marker_def answer_marker_def)
  then have r1: "cut_at_end ?t = ?t" and r2: "keep_last_answer ?t = ?t"
    by (simp_all add: cut_at_end_def keep_last_answer_def)
  from st mk have r3: "strip_all markers ?t = ?t" by (rule strip_all_absent)
  from ys have r4: "drop_yishang ?t = ?t" by (simp add: drop_yishang_def)
  from st ph have r5: "strip_all closing_phrases ?t = ?t" by (rule strip_all_absent)
  from st have r7: "py_strip ?t = ?t" by (rule py_strip_stripped)
  show ?thesis
    by (subst (1) clean_answer_def) (simp add: r1 r2 r3 r4 r5 fx r7 Let_def)
qed

text \<open>
  The definitions that evaluate \<open>clean_answer\<close> on a given string.
\<close>

lemmas clean_eval = clean_answer_def cut_at_end_def keep_last_answer_def drop_yishang_def
  contains_def py_index_def py_strip_def endswith_def isspace_def end_marker_def answer_marker_def
  markers_def closing_phrases_def yishang_def py_split.simps Let_def

text \<open>
  The amended claim C2 at the input \<^verbatim>\<open>" a\n \n\nb "\<close>, whose cleaned form is
  \<^verbatim>\<open>"a\n\nb"\<close>.
\<close>

theorem clean_answer_idempotent_when_clean_witness:
  "clean_answer [32, 97, 10, 32, 10, 10, 98, 32] = [97, 10, 10, 98] \<and>
   clean_answer (clean_answer [32, 97, 10, 32, 10, 10, 98, 32]) =
     clean_answer [32, 97, 10, 32, 10, 10, 98, 32]"
proof -
  have ev: "clean_answer [32, 97, 10, 32, 10, 10, 98, 32] = [97, 10, 10, 98]"
    by (simp add: clean_eval)
  have mk: "\<forall>m \<in> set markers. \<not> contains (clean_answer [32, 97, 10, 32, 10, 10, 98, 32]) m"
    by (simp add: ev markers_def contains_def)
  have ph: "\<forall>p \<in> set closing_phrases.
      \<not> contains (clean_answer [32, 97, 10, 32, 10, 10, 98, 32]) p"
    by (simp add: ev closing_phrases_def contains_def)
  have ys: "\<not> endswith (clean_answer [32, 97, 10, 32, 10, 10, 98, 32]) yishang"
    by (simp add: ev endswith_def yishang_def)
  show ?thesis
    by (rule conjI [OF ev clean_answer_idempotent_when_clean [OF mk ph ys]])
qed

text \<open>
  Claim C2 as stated fails. The input is the two characters U+4EE5 U+4E0A followed by
  the third closing phrase. The suffix test of the fourth step does not fire, the fifth
  step removes the phrase, and the result is the two characters alone; cleaning that
  result again, the fourth step removes them and the result is empty.
\<close>

theorem clean_answer_not_idempotent:
  "clean_answer (clean_answer [20197, 19978, 24076, 26395, 24744, 28385, 24847, 12290])
     \<noteq> clean_answer [20197, 19978, 24076, 26395, 24744, 28385, 24847, 12290]"
proof -
  have "clean_answer [20197, 19978, 24076, 26395, 24744, 28385, 24847, 12290] = [20197, 19978]"
    by (simp add: clean_eval)
  moreover have "clean_answer [20197, 19978] = []"
    by (simp add: clean_eval)
  ultimately show ?thesis by simp
qed

section \<open>The end marker\<close>

text \<open>
  Claim C3. When the raw text contains the end marker, nothing behind its first
  occurrence reaches the result: two raw texts with the first end marker at the same
  place and the same text before it are cleaned to the same result. In particular the
  example of the specification, the answer marker, nine characters, the end marker and
  four more characters, is cleaned to the nine characters.
\<close>

theorem clean_answer_end_marker:
  "(py_find raw end_marker = Some i \<and> py_find raw' end_marker = Some i \<and>
      take i raw = take i raw' \<longrightarrow> clean_answer raw = clean_answer raw') \<and>
   clean_answer
     [12304, 22238, 31572, 12305, 26519, 40667, 29577, 8230, 24615, 26684, 22797, 26434,
      12290, 12304, 32467, 26463, 12305, 22810, 20313, 20869, 23481]
   = [26519, 40667, 29577, 8230, 24615, 26684, 22797, 26434, 12290]"
proof
  show "py_find raw end_marker = Some i \<and> py_find raw' end_marker = Some i \<and>
      take i raw = take i raw' \<longrightarrow> clean_answer raw = clean_answer raw'"
  proof
    assume h: "py_find raw end_marker = Some i \<and> py_find raw' end_marker = Some i \<and>
      take i raw = take i raw'"
    have ne: "py_find s end_marker = Some i \<Longrightarrow> s \<noteq> []" for s
      by (auto simp: end_marker_def)
    have cut: "py_find s end_marker = Some i \<Longrightarrow> cut_at_end s = py_strip (take i s)" for s
      by (simp add: cut_at_end_def contains_def py_index_def)
    from h have "cut_at_end raw = cut_at_end raw'" by (simp add: cut)
    moreover from h have "raw \<noteq> []" "raw' \<noteq> []" by (auto dest: ne)
    ultimately show "clean_answer raw = clean_answer raw'"
      by (simp add: clean_answer_def)
  qed
next
  show "clean_answer
     [12304, 22238, 31572, 12305, 26519, 40667, 29577, 8230, 24615, 26684, 22797, 26434,
      12290, 12304, 32467, 26463, 12305, 22810, 20313, 20869, 23481]
   = [26519, 40667, 29577, 8230, 24615, 26684, 22797, 26434, 12290]"
    by (simp add: clean_eval)
qed

text \<open>
  Claim C3 at the inputs \<^verbatim>\<open>ab\<close> + end marker + \<^verbatim>\<open>c\<close> + end marker and \<^verbatim>\<open>ab\<close> + end
  marker.
\<close>

theorem clean_answer_end_marker_witness:
  "py_find [97, 98, 12304, 32467, 26463, 12305, 99, 12304, 32467, 26463, 12305]
      end_marker = Some 2 \<and>
   py_find [97, 98, 12304, 32467, 26463, 12305] end_marker = Some 2 \<and>
   clean_answer [97, 98, 12304, 32467, 26463, 12305, 99, 12304, 32467, 26463, 12305]
     = clean_answer [97, 98, 12304, 32467, 26463, 12305]"
proof -
  have a: "py_find [97, 98, 12304, 32467, 26463, 12305, 99, 12304, 32467, 26463, 12305]
      end_marker = Some 2"
    by (simp add: end_marker_def)
  have b: "py_find [97, 98, 12304, 32467, 26463, 12305] end_marker = Some 2"
    by (simp add: end_marker_def)
  have c: "take 2 [97, 98, 12304, 32467, 26463, 12305, 99, 12304, 32467, 26463, 12305]
      = take 2 [97, 98, 12304, 32467, 26463, 12305 :: nat]"
    by simp
  from clean_answer_end_marker
    [of "[97, 98, 12304, 32467, 26463, 12305, 99, 12304, 32467, 26463, 12305]" 2
        "[97, 98, 12304, 32467, 26463, 12305]"] a b c
  show ?thesis by blast
qed

section \<open>The answer marker\<close>

text \<open>
  Claim C4 says that a text with exactly one answer marker keeps what stands before the
  marker. On \<^verbatim>\<open>a\<close> + answer marker + \<^verbatim>\<open>b\<close> the split has two pieces, the test
  \<^verbatim>\<open>len(parts) > 1\<close> holds, and only the last piece \<^verbatim>\<open>b\<close> is kept.
\<close>

theorem clean_answer_single_answer_marker:
  "py_split [97, 12304, 22238, 31572, 12305, 98] answer_marker = [[97], [98]] \<and>
   clean_answer [97, 12304, 22238, 31572, 12305, 98] = [98]"
  by (simp add: clean_eval)

section \<open>The retriever keeps the first passage of each chapter\<close>

lemma dedup_loop_acc: "dedup_loop ds seen acc = acc @ dedup_loop ds seen []"
proof (induction ds arbitrary: seen acc)
  case Nil
  show ?case by simp
next
  case (Cons d ds)
  show ?case
  proof (cases "chapter_of d \<in> seen")
    case True
    with Cons.IH [of seen acc] show ?thesis by simp
  next
    case False
    with Cons.IH [of "insert (chapter_of d) seen" "acc @ [d]"]
      Cons.IH [of "insert (chapter_of d) seen" "[d]"]
    show ?thesis by simp
  qed
qed

lemma dedup_loop_Cons:
  "dedup_loop (d # ds) seen [] =
     (if chapter_of d \<in> seen then dedup_loop ds seen []
      else d # dedup_loop ds (insert (chapter_of d) seen) [])"
  using dedup_loop_acc [of ds "insert (chapter_of d) seen" "[d]"] by simp

declare dedup_loop.simps(2) [simp del]

lemma dedup_loop_fresh:
  "x \<in> set (dedup_loop ds seen []) \<Longrightarrow> chapter_of x \<notin> seen"
proof (induction ds arbitrary: seen)
  case Nil
  then show ?case by simp
next
  case (Cons d ds)
  then show ?case
    by (auto simp: dedup_loop_Cons split: if_splits)
qed

lemma dedup_loop_distinct: "distinct (map chapter_of (dedup_loop ds seen []))"
proof (induction ds arbitrary: seen)
  case Nil
  show ?case by simp
next
  case (Cons d ds)
  show ?case
  proof (cases "chapter_of d \<in> seen")
    case True
    with Cons.IH show ?thesis by (simp add: dedup_loop_Cons)
  next
    case False
    have "chapter_of d \<notin> chapter_of ` set (dedup_loop ds (insert (chapter_of d) seen) [])"
    proof
      assume "chapter_of d \<in> chapter_of ` set (dedup_loop ds (insert (chapter_of d) seen) [])"
      then obtain x where x: "x \<in> set (dedup_loop ds (insert (chapter_of d) seen) [])"
        and eq: "chapter_of x = chapter_of d" by auto
      from x have "chapter_of x \<notin> insert (chapter_of d) seen" by (rule dedup_loop_fresh)
      with eq show False by simp
    qed
    with False Cons.IH show ?thesis by (simp add: dedup_loop_Cons)
  qed
qed

lemma dedup_loop_length: "length (dedup_loop ds seen []) \<le> length ds"
proof (induction ds arbitrary: seen)
  case Nil
  show ?case by simp
next
  case (Cons d ds)
  from Cons.IH [of seen] Cons.IH [of "insert (chapter_of d) seen"]
  show ?case by (simp add: dedup_loop_Cons)
qed

lemma dedup_loop_find:
  "x \<in> set (dedup_loop ds seen []) \<Longrightarrow>
     find (\<lambda>y. chapter_of y = chapter_of x) ds = Some x"
proof (induction ds arbitrary: seen)
  case Nil
  then show ?case by simp
next
  case (Cons d ds)
  show ?case
  proof (cases "chapter_of d \<in> seen")
    case True
    with Cons.prems have x: "x \<in> set (dedup_loop ds seen [])"
      by (simp add: dedup_loop_Cons)
    then have "chapter_of x \<notin> seen" by (rule dedup_loop_fresh)
    with True have "chapter_of d \<noteq> chapter_of x" by auto
    with Cons.IH [OF x] show ?thesis by simp
  next
    case False
    with Cons.prems have
      "x = d \<or> x \<in> set (dedup_loop ds (insert (chapter_of d) seen) [])"
      by (simp add: dedup_loop_Cons)
    then show ?thesis
    proof
      assume "x = d"
      then show ?thesis by simp
    next
      assume x: "x \<in> set (dedup_loop ds (insert (chapter_of d) seen) [])"
      then have "chapter_of x \<notin> insert (chapter_of d) seen" by (rule dedup_loop_fresh)
      then have "chapter_of d \<noteq> chapter_of x" by auto
      with Cons.IH [OF x] show ?thesis by simp
    qed
  qed
qed

lemma dedup_loop_index:
  "dedup_loop ds seen [] =
     map ((!) ds)
       (filter (\<lambda>i. chapter_of (ds ! i) \<notin> seen \<union> set (map chapter_of (take i ds)))
          [0..<length ds])"
proof (induction ds arbitrary: seen)
  case Nil
  show ?case by simp
next
  case (Cons d ds)
  let ?P = "\<lambda>i. chapter_of ((d # ds) ! i) \<notin> seen \<union> set (map chapter_of (take i (d # ds)))"
  let ?Q = "\<lambda>i. chapter_of (ds ! i) \<notin>
              insert (chapter_of d) seen \<union> set (map chapter_of (take i ds))"
  have upt: "[0..<length (d # ds)] = 0 # map Suc [0..<length ds]"
    by (simp add: upt_conv_Cons map_Suc_upt del: upt_Suc)
  have PS: "?P \<circ> Suc = ?Q" by (auto simp: fun_eq_iff)
  have "filter ?P (map Suc [0..<length ds]) = map Suc (filter (?P \<circ> Suc) [0..<length ds])"
    by (rule filter_map)
  then have "map ((!) (d # ds)) (filter ?P (map Suc [0..<length ds])) =
      map ((!) ds) (filter ?Q [0..<length ds])"
    by (simp only: PS) simp
  also have "\<dots> = dedup_loop ds (insert (chapter_of d) seen) []"
    by (rule Cons.IH [symmetric])
  finally have tl: "map ((!) (d # ds)) (filter ?P (map Suc [0..<length ds])) =
      dedup_loop ds (insert (chapter_of d) seen) []" .
  have "map ((!) (d # ds)) (filter ?P [0..<length (d # ds)]) =
      (if ?P 0 then [d] else []) @ map ((!) (d # ds)) (filter ?P (map Suc [0..<length ds]))"
    by (simp only: upt) simp
  also have "\<dots> = (if chapter_of d \<notin> seen then [d] else []) @
      dedup_loop ds (insert (chapter_of d) seen) []"
    by (simp only: tl) simp
  also have "\<dots> = dedup_loop (d # ds) seen []"
  proof (cases "chapter_of d \<in> seen")
    case True
    then have "insert (chapter_of d) seen = seen" by auto
    with True show ?thesis by (simp add: dedup_loop_Cons)
  next
    case False
    then show ?thesis by (simp add: dedup_loop_Cons)
  qed
  finally show ?case by (rule sym)
qed

lemma dedup_loop_first_occurrences: "dedup_loop docs {} [] = first_occurrences docs"
  by (simp add: dedup_loop_index first_occurrences_def)

text \<open>
  Claim C1. For every ranked candidate list that the similarity search returns,
  \<open>retrieve\<close> returns a list in which no two entries have the same chapter number, of
  length at most 3 and at most the length of the input, and this list is the first three
  of the entries whose chapter does not occur at an earlier rank, in rank order.
\<close>

theorem retrieve_first_of_each_chapter:
  assumes "similarity_search r query k = Inr docs"
  shows "\<exists>out. retrieve r query k = Inr out \<and>
           distinct (map chapter_of out) \<and>
           length out \<le> 3 \<and> length out \<le> length docs \<and>
           out = take 3 (first_occurrences docs)"
proof -
  let ?out = "take 3 (dedup_loop docs {} [])"
  from assms have "retrieve r query k = Inr ?out" by (simp add: retrieve_def)
  moreover have "distinct (map chapter_of ?out)"
    using dedup_loop_distinct [of docs "{}"] by (simp add: take_map [symmetric])
  moreover have "length ?out \<le> 3" by simp
  moreover have "length ?out \<le> length docs"
    using dedup_loop_length [of docs "{}"] by simp
  moreover have "?out = take 3 (first_occurrences docs)"
    by (simp only: dedup_loop_first_occurrences)
  ultimately show ?thesis by blast
qed

text \<open>
  Claim C1 at the example of the specification: candidates of chapters 3, 3, 5, 5, 8,
  12 and \<open>k = 6\<close> give the chapters 3, 5, 8.
\<close>

theorem retrieve_first_of_each_chapter_witness:
  "similarity_search (example_rag example_docs (Inr [])) [] 6 = Inr example_docs \<and>
   (\<exists>out. retrieve (example_rag example_docs (Inr [])) [] 6 = Inr out \<and>
      distinct (map chapter_of out) \<and> length out \<le> 3 \<and> length out \<le> length example_docs \<and>
      out = take 3 (first_occurrences example_docs)) \<and>
   map chapter_of (take 3 (first_occurrences example_docs)) = [IntV 3, IntV 5, IntV 8]"
proof -
  have h: "similarity_search (example_rag example_docs (Inr [])) [] 6 = Inr example_docs"
    by (simp add: example_rag_def example_docs_def)
  have ev: "map chapter_of (take 3 (first_occurrences example_docs)) = [IntV 3, IntV 5, IntV 8]"
    by (simp add: first_occurrences_def example_docs_def example_doc_def chapter_of_def)
  show ?thesis
    by (rule conjI [OF h conjI [OF retrieve_first_of_each_chapter [OF h] ev]])
qed

section \<open>Passages without a chapter\<close>

lemma distinct_map_filter_le1:
  "distinct (map f xs) \<Longrightarrow> length (filter (\<lambda>x. f x = v) xs) \<le> 1"
proof (induction xs)
  case Nil
  show ?case by simp
next
  case (Cons x xs)
  show ?case
  proof (cases "f x = v")
    case True
    from Cons.prems have "f x \<notin> f ` set xs" by simp
    with True have "\<forall>y \<in> set xs. f y \<noteq> v" by (auto simp: image_iff)
    then have "filter (\<lambda>x. f x = v) xs = []" by (simp add: filter_empty_conv)
    with True show ?thesis by simp
  next
    case False
    with Cons show ?thesis by simp
  qed
qed

lemma find_refine:
  "find P xs = Some d \<Longrightarrow> Q d \<Longrightarrow> (\<And>x. Q x \<Longrightarrow> P x) \<Longrightarrow> find Q xs = Some d"
  by (induction xs) (auto split: if_splits)

lemma chapter_of_zero_iff:
  "chapter_of d = IntV 0 \<longleftrightarrow>
     metadata d ''chapter'' = None \<or> metadata d ''chapter'' = Some (IntV 0)"
  by (auto simp: chapter_of_def split: option.splits)

text \<open>
  Claim C10. A document whose metadata has no \<^verbatim>\<open>chapter\<close> key counts as chapter 0.
  So the result of \<open>retrieve\<close> holds at most one document that has no chapter or has
  chapter 0: a document without chapter in the result excludes every other one and
  every document of chapter 0; and a document without chapter in the result is the
  first such document of the candidates.
\<close>

theorem retrieve_missing_chapter_is_zero:
  assumes "similarity_search r query k = Inr docs"
  shows "\<exists>out. retrieve r query k = Inr out \<and>
           (\<forall>d. metadata d ''chapter'' = None \<longrightarrow> chapter_of d = IntV 0) \<and>
           length (filter (\<lambda>d. metadata d ''chapter'' = None \<or>
                              metadata d ''chapter'' = Some (IntV 0)) out) \<le> 1 \<and>
           (\<forall>d \<in> set out. metadata d ''chapter'' = None \<longrightarrow>
              find (\<lambda>x. metadata x ''chapter'' = None) docs = Some d)"
proof -
  let ?out = "take 3 (dedup_loop docs {} [])"
  from assms have out: "retrieve r query k = Inr ?out" by (simp add: retrieve_def)
  have zero: "\<forall>d. metadata d ''chapter'' = None \<longrightarrow> chapter_of d = IntV 0"
    by (simp add: chapter_of_def)
  have "distinct (map chapter_of ?out)"
    using dedup_loop_distinct [of docs "{}"] by (simp add: take_map [symmetric])
  then have "length (filter (\<lambda>d. chapter_of d = IntV 0) ?out) \<le> 1"
    by (rule distinct_map_filter_le1)
  then have one: "length (filter (\<lambda>d. metadata d ''chapter'' = None \<or>
      metadata d ''chapter'' = Some (IntV 0)) ?out) \<le> 1"
    by (simp only: chapter_of_zero_iff)
  have first: "\<forall>d \<in> set ?out. metadata d ''chapter'' = None \<longrightarrow>
      find (\<lambda>x. metadata x ''chapter'' = None) docs = Some d"
  proof (intro ballI impI)
    fix d
    assume d: "d \<in> set ?out" and none: "metadata d ''chapter'' = None"
    from d have "d \<in> set (dedup_loop docs {} [])" by (rule in_set_takeD)
    then have "find (\<lambda>y. chapter_of y = chapter_of d) docs = Some d"
      by (rule dedup_loop_find)
    moreover from none have "chapter_of d = IntV 0" by (simp add: chapter_of_def)
    ultimately have fz: "find (\<lambda>y. chapter_of y = IntV 0) docs = Some d" by simp
    have "\<And>x. metadata x ''chapter'' = None \<Longrightarrow> chapter_of x = IntV 0"
      by (simp add: chapter_of_def)
    with fz none show "find (\<lambda>x. metadata x ''chapter'' = None) docs = Some d"
      by (rule find_refine [where P = "\<lambda>y. chapter_of y = IntV 0"
            and Q = "\<lambda>x. metadata x ''chapter'' = None"])
  qed
  show ?thesis
  proof (intro exI conjI)
    show "retrieve r query k = Inr ?out" by (rule out)
    show "\<forall>d. metadata d ''chapter'' = None \<longrightarrow> chapter_of d = IntV 0" by (rule zero)
    show "length (filter (\<lambda>d. metadata d ''chapter'' = None \<or>
        metadata d ''chapter'' = Some (IntV 0)) ?out) \<le> 1" by (rule one)
    show "\<forall>d \<in> set ?out. metadata d ''chapter'' = None \<longrightarrow>
        find (\<lambda>x. metadata x ''chapter'' = None) docs = Some d" by (rule first)
  qed
qed

text \<open>
  Claim C10 at four candidates: no chapter, chapter 0, no chapter, chapter 7. The first
  and the last are returned, and the first is the first candidate without a chapter.
\<close>

theorem retrieve_missing_chapter_is_zero_witness:
  "similarity_search (example_rag example_mixed (Inr [])) [] 4 = Inr example_mixed \<and>
   retrieve (example_rag example_mixed (Inr [])) [] 4 =
     Inr [example_untagged [97], example_doc 7 [100]] \<and>
   metadata (example_untagged [97]) ''chapter'' = None \<and>
   find (\<lambda>x. metadata x ''chapter'' = None) example_mixed = Some (example_untagged [97])"
proof -
  have h: "similarity_search (example_rag example_mixed (Inr [])) [] 4 = Inr example_mixed"
    by (simp add: example_rag_def example_mixed_def)
  have ev: "retrieve (example_rag example_mixed (Inr [])) [] 4 =
      Inr [example_untagged [97], example_doc 7 [100]]"
    by (simp add: retrieve_def example_rag_def example_mixed_def example_untagged_def
        example_doc_def chapter_of_def dedup_loop.simps)
  have none: "metadata (example_untagged [97]) ''chapter'' = None"
    by (simp add: example_untagged_def)
  from retrieve_missing_chapter_is_zero [OF h] obtain out where
    out: "retrieve (example_rag example_mixed (Inr [])) [] 4 = Inr out"
    and first: "\<forall>d \<in> set out. metadata d ''chapter'' = None \<longrightarrow>
      find (\<lambda>x. metadata x ''chapter'' = None) example_mixed = Some d"
    by (elim exE conjE)
  from out ev have "out = [example_untagged [97], example_doc 7 [100]]" by simp
  then have "example_untagged [97] \<in> set out" by simp
  with first have "metadata (example_untagged [97]) ''chapter'' = None \<longrightarrow>
      find (\<lambda>x. metadata x ''chapter'' = None) example_mixed = Some (example_untagged [97])"
    by (rule bspec)
  with none have
    "find (\<lambda>x. metadata x ''chapter'' = None) example_mixed = Some (example_untagged [97])"
    by simp
  with h ev none show ?thesis by (intro conjI)
qed

section \<open>The prompt\<close>

lemma context_loop_enumerate:
  "context_loop i docs acc = acc @ map (\<lambda>(j, d). render_part j d) (enumerate i docs)"
  by (induction docs arbitrary: i acc) auto

lemma py_join_Cons: "py_join sep (p # ps) = p @ concat (map ((@) sep) ps)"
  by (induction ps arbitrary: p) auto

lemma build_context_Cons:
  "build_context (d # ds) =
     render_part 1 d @ concat (map (\<lambda>(i, x). [10, 10] @ render_part i x) (enumerate 2 ds))"
proof -
  have "context_loop 1 (d # ds) [] =
      render_part 1 d # map (\<lambda>(j, x). render_part j x) (enumerate 2 ds)"
    by (simp add: context_loop_enumerate numeral_2_eq_2)
  moreover have "map ((@) [10, 10]) (map (\<lambda>(j, x). render_part j x) (enumerate 2 ds)) =
      map (\<lambda>(i, x). [10, 10] @ render_part i x) (enumerate 2 ds)"
    by (simp add: case_prod_beta)
  ultimately show ?thesis
    by (simp only: build_context_def py_join_Cons)
qed

lemma py_format_literal:
  "\<forall>c \<in> set lit. c \<noteq> 123 \<and> c \<noteq> 125 \<Longrightarrow>
     py_format (lit @ rest) None kw = map_option ((@) lit) (py_format rest None kw)"
proof (induction lit)
  case Nil
  show ?case by (cases "py_format rest None kw") auto
next
  case (Cons c lit)
  then show ?case by (cases "py_format rest None kw") auto
qed

lemma py_format_name:
  "\<forall>c \<in> set nm. c \<noteq> 125 \<Longrightarrow>
     py_format (nm @ 125 # rest) (Some acc) kw =
       (if plain_name (rev acc @ nm)
        then (case kw (rev acc @ nm) of
                None \<Rightarrow> None
              | Some v \<Rightarrow> map_option ((@) v) (py_format rest None kw))
        else None)"
  by (induction nm arbitrary: acc) (auto split: option.splits)

lemma py_format_field:
  assumes "nm \<noteq> []" and "hd nm \<noteq> 123" and "\<forall>c \<in> set nm. c \<noteq> 125"
    and "plain_name nm" and "kw nm = Some v"
  shows "py_format (123 # nm @ 125 # rest) None kw = map_option ((@) v) (py_format rest None kw)"
proof -
  from assms(1) obtain d ds where nm: "nm = d # ds" by (cases nm) auto
  with assms(2) have "py_format (123 # nm @ 125 # rest) None kw =
      py_format (nm @ 125 # rest) (Some []) kw" by simp
  also from assms(3,4,5) have "\<dots> = map_option ((@) v) (py_format rest None kw)"
    by (simp add: py_format_name)
  finally show ?thesis .
qed

lemma py_format_rag_template:
  "py_format rag_template None [context_key \<mapsto> ctx, question_key \<mapsto> question] =
     Some (template_head @ ctx @ template_mid @ question @ template_tail)"
proof -
  let ?kw = "[context_key \<mapsto> ctx, question_key \<mapsto> question]"
  have lit: "\<forall>c \<in> set template_head. c \<noteq> 123 \<and> c \<noteq> 125"
    "\<forall>c \<in> set template_mid. c \<noteq> 123 \<and> c \<noteq> 125"
    "\<forall>c \<in> set template_tail. c \<noteq> 123 \<and> c \<noteq> 125"
    by (simp_all add: template_head_def template_mid_def template_tail_def)
  have kc: "?kw context_key = Some ctx"
    by (simp add: context_key_def question_key_def)
  have kq: "?kw question_key = Some question" by simp
  have fc: "py_format (123 # context_key @ 125 # rest) None ?kw =
      map_option ((@) ctx) (py_format rest None ?kw)" for rest
    using kc
    by (intro py_format_field [where nm = context_key and v = ctx])
       (simp_all add: context_key_def plain_name_def ident_char_def)
  have fq: "py_format (123 # question_key @ 125 # rest) None ?kw =
      map_option ((@) question) (py_format rest None ?kw)" for rest
    using kq
    by (intro py_format_field [where nm = question_key and v = question])
       (simp_all add: question_key_def plain_name_def ident_char_def)
  have tl: "py_format template_tail None ?kw = Some template_tail"
    using py_format_literal [OF lit(3), of "[]" ?kw] by simp
  have "py_format rag_template None ?kw =
      py_format (template_head @ (123 # context_key @ 125 #
        (template_mid @ (123 # question_key @ 125 # template_tail)))) None ?kw"
    by (simp add: rag_template_def)
  also have "\<dots> = Some (template_head @ ctx @ template_mid @ question @ template_tail)"
    by (simp only: py_format_literal [OF lit(1)] py_format_literal [OF lit(2)] fc fq tl)
       simp
  finally show ?thesis .
qed

lemma generate_unfold:
  "retrieve r query 4 = Inr docs \<Longrightarrow>
     generate r query =
       (case llm r (build_prompt docs query) of
          Inl e \<Rightarrow> Inr (GenError (exc_str e))
        | Inr response \<Rightarrow>
            Inr (GenAnswer query
                   (if contains response (build_prompt docs query)
                    then py_strip (py_remove response (build_prompt docs query))
                    else response)
                   docs (build_context docs)))"
  by (simp add: generate_def Let_def)

text \<open>
  Claim C7. The context block of no passage is empty, and that of a first passage and
  further ones is the first rendered with index 1, followed by two line feeds and the
  rendered passage for each further one, numbered from 2 in rank order. A rendered
  passage is the bracketed index, a space, the chapter title, the type in full-width
  parentheses, a full-width colon, the first 300 characters of the content and three
  dots, with \<^verbatim>\<open>unknown\<close> and the body-text type for a passage that has neither. Formatting
  the template with the context block and the question gives the prompt: the template
  with the two values in the places of its two fields. Inside \<open>generate\<close> the model is
  called on this prompt of the retrieved passages and the question, and the context
  block is returned with the answer.
\<close>

theorem prompt_assembly:
  "build_context [] = [] \<and>
   build_context (d # ds) =
     render_part 1 d @ concat (map (\<lambda>(i, x). [10, 10] @ render_part i x) (enumerate 2 ds)) \<and>
   (\<forall>i < length docs. context_loop 1 docs [] ! i = render_part (Suc i) (docs ! i)) \<and>
   (metadata d ''chapter_title'' = Some (StrV title) \<and> metadata d ''type'' = Some (StrV kind) \<longrightarrow>
      render_part n d =
        [91] @ dec_nat n @ [93, 32] @ title @ [65288] @ kind @ [65289, 65306] @
        take 300 (page_content d) @ [46, 46, 46]) \<and>
   (metadata d ''chapter_title'' = None \<and> metadata d ''type'' = None \<longrightarrow>
      render_part n d =
        [91] @ dec_nat n @ [93, 32] @ [117, 110, 107, 110, 111, 119, 110] @ [65288] @
        [27491, 25991] @ [65289, 65306] @ take 300 (page_content d) @ [46, 46, 46]) \<and>
   py_format rag_template None
       [context_key \<mapsto> build_context docs, question_key \<mapsto> question] =
     Some (build_prompt docs question) \<and>
   build_prompt docs question =
     template_head @ build_context docs @ template_mid @ question @ template_tail \<and>
   (retrieve r query 4 = Inr docs \<longrightarrow>
      generate r query =
        (case llm r (build_prompt docs query) of
           Inl e \<Rightarrow> Inr (GenError (exc_str e))
         | Inr response \<Rightarrow>
             Inr (GenAnswer query
                    (if contains response (build_prompt docs query)
                     then py_strip (py_remove response (build_prompt docs query))
                     else response)
                    docs (build_context docs))))"
proof (intro conjI)
  show "build_context [] = []" by (simp add: build_context_def)
  show "build_context (d # ds) =
      render_part 1 d @ concat (map (\<lambda>(i, x). [10, 10] @ render_part i x) (enumerate 2 ds))"
    by (rule build_context_Cons)
  show "\<forall>i < length docs. context_loop 1 docs [] ! i = render_part (Suc i) (docs ! i)"
    by (simp add: context_loop_enumerate nth_enumerate_eq)
  show "metadata d ''chapter_title'' = Some (StrV title) \<and>
      metadata d ''type'' = Some (StrV kind) \<longrightarrow>
      render_part n d =
        [91] @ dec_nat n @ [93, 32] @ title @ [65288] @ kind @ [65289, 65306] @
        take 300 (page_content d) @ [46, 46, 46]"
    by (simp add: render_part_def)
  show "metadata d ''chapter_title'' = None \<and> metadata d ''type'' = None \<longrightarrow>
      render_part n d =
        [91] @ dec_nat n @ [93, 32] @ [117, 110, 107, 110, 111, 119, 110] @ [65288] @
        [27491, 25991] @ [65289, 65306] @ take 300 (page_content d) @ [46, 46, 46]"
    by (simp add: render_part_def)
  show "py_format rag_template None
       [context_key \<mapsto> build_context docs, question_key \<mapsto> question] =
     Some (build_prompt docs question)"
    by (simp only: py_format_rag_template build_prompt_def)
  show "build_prompt docs question =
      template_head @ build_context docs @ template_mid @ question @ template_tail"
    by (simp add: build_prompt_def)
  show "retrieve r query 4 = Inr docs \<longrightarrow>
      generate r query =
        (case llm r (build_prompt docs query) of
           Inl e \<Rightarrow> Inr (GenError (exc_str e))
         | Inr response \<Rightarrow>
             Inr (GenAnswer query
                    (if contains response (build_prompt docs query)
                     then py_strip (py_remove response (build_prompt docs query))
                     else response)
                    docs (build_context docs)))"
    by (rule impI) (rule generate_unfold)
qed

lemma startswith_append: "startswith (p @ s) p"
  by (induction p) auto

lemma contains_append: "contains (p @ s) p"
proof -
  have sw: "startswith (p @ s) p" by (rule startswith_append)
  show ?thesis
  proof (cases "p @ s")
    case Nil
    then show ?thesis by (simp add: contains_def)
  next
    case (Cons a l)
    with sw have "startswith (a # l) p" by simp
    then have "py_find (a # l) p = Some 0" by simp
    with Cons show ?thesis by (simp add: contains_def)
  qed
qed

lemma py_remove_append: "p \<noteq> [] \<Longrightarrow> py_remove (p @ s) p = py_remove s p"
proof -
  assume p: "p \<noteq> []"
  then obtain c cs where pc: "p = c # cs" by (cases p) auto
  have "startswith ((c # cs) @ s) (c # cs)" by (rule startswith_append)
  then have "py_remove (c # (cs @ s)) (c # cs) = py_remove (drop (length cs) (cs @ s)) (c # cs)"
    by simp
  then show ?thesis by (simp add: pc)
qed

text \<open>
  Claim C7 at a passage with title \<^verbatim>\<open>T\<close>, type \<^verbatim>\<open>t\<close> and content \<^verbatim>\<open>abc\<close>, followed by a
  passage without metadata and with content \<^verbatim>\<open>x\<close>: the two rendered passages stand in
  the context block with two line feeds between them, and an engine whose model
  returns the prompt followed by \<^verbatim>\<open>ok\<close> makes \<open>generate\<close> return \<^verbatim>\<open>ok\<close>, the passage and
  its context block.
\<close>

theorem prompt_assembly_witness:
  "metadata example_passage ''chapter_title'' = Some (StrV [84]) \<and>
   metadata example_passage ''type'' = Some (StrV [116]) \<and>
   metadata (example_untagged [120]) ''chapter_title'' = None \<and>
   metadata (example_untagged [120]) ''type'' = None \<and>
   build_context [example_passage, example_untagged [120]] =
     [91, 49, 93, 32, 84, 65288, 116, 65289, 65306, 97, 98, 99, 46, 46, 46, 10, 10,
      91, 50, 93, 32, 117, 110, 107, 110, 111, 119, 110, 65288, 27491, 25991, 65289, 65306,
      120, 46, 46, 46] \<and>
   py_format rag_template None
       [context_key \<mapsto> build_context [example_passage], question_key \<mapsto> [63]] =
     Some (template_head @
           [91, 49, 93, 32, 84, 65288, 116, 65289, 65306, 97, 98, 99, 46, 46, 46] @
           template_mid @ [63] @ template_tail) \<and>
   retrieve (echo_rag [example_passage] [111, 107]) [63] 4 = Inr [example_passage] \<and>
   generate (echo_rag [example_passage] [111, 107]) [63] =
     Inr (GenAnswer [63] [111, 107] [example_passage]
            [91, 49, 93, 32, 84, 65288, 116, 65289, 65306, 97, 98, 99, 46, 46, 46])"
proof -
  let ?p = example_passage
  let ?u = "example_untagged [120]"
  let ?r = "echo_rag [example_passage] [111, 107]"
  have a: "metadata ?p ''chapter_title'' = Some (StrV [84])"
    and b: "metadata ?p ''type'' = Some (StrV [116])"
    by (simp_all add: example_passage_def)
  have c: "metadata ?u ''chapter_title'' = None" and d: "metadata ?u ''type'' = None"
    by (simp_all add: example_untagged_def)
  note t1 = prompt_assembly [where d = ?p and title = "[84]" and kind = "[116]"
      and n = 1 and ds = "[?u]" and docs = "[?p]" and question = "[63]"
      and r = ?r and query = "[63]"]
  note t2 = prompt_assembly [where d = ?u and n = 2]
  from t1 a b have r1: "render_part 1 ?p =
      [91] @ dec_nat 1 @ [93, 32] @ [84] @ [65288] @ [116] @ [65289, 65306] @
      take 300 (page_content ?p) @ [46, 46, 46]"
    by blast
  then have r1': "render_part 1 ?p =
      [91, 49, 93, 32, 84, 65288, 116, 65289, 65306, 97, 98, 99, 46, 46, 46]"
    by (simp add: dec_nat.simps example_passage_def)
  from t2 c d have r2: "render_part 2 ?u =
      [91] @ dec_nat 2 @ [93, 32] @ [117, 110, 107, 110, 111, 119, 110] @ [65288] @
      [27491, 25991] @ [65289, 65306] @ take 300 (page_content ?u) @ [46, 46, 46]"
    by blast
  then have r2': "render_part 2 ?u =
      [91, 50, 93, 32, 117, 110, 107, 110, 111, 119, 110, 65288, 27491, 25991, 65289, 65306,
       120, 46, 46, 46]"
    by (simp add: dec_nat.simps example_untagged_def)
  from t1 have "build_context (?p # [?u]) =
      render_part 1 ?p @ concat (map (\<lambda>(i, x). [10, 10] @ render_part i x) (enumerate 2 [?u]))"
    by (rule conjunct1 [OF conjunct2])
  then have e: "build_context [?p, ?u] =
      [91, 49, 93, 32, 84, 65288, 116, 65289, 65306, 97, 98, 99, 46, 46, 46, 10, 10,
       91, 50, 93, 32, 117, 110, 107, 110, 111, 119, 110, 65288, 27491, 25991, 65289, 65306,
       120, 46, 46, 46]"
    using r1' r2' by simp
  have ctx: "build_context [?p] =
      [91, 49, 93, 32, 84, 65288, 116, 65289, 65306, 97, 98, 99, 46, 46, 46]"
    using prompt_assembly [where d = ?p and ds = "[]"] r1' by simp
  from t1 have "py_format rag_template None
       [context_key \<mapsto> build_context [?p], question_key \<mapsto> [63]] =
     Some (build_prompt [?p] [63])"
    by blast
  moreover from t1 have bp: "build_prompt [?p] [63] =
      template_head @ build_context [?p] @ template_mid @ [63] @ template_tail"
    by blast
  ultimately have f: "py_format rag_template None
       [context_key \<mapsto> build_context [?p], question_key \<mapsto> [63]] =
     Some (template_head @
           [91, 49, 93, 32, 84, 65288, 116, 65289, 65306, 97, 98, 99, 46, 46, 46] @
           template_mid @ [63] @ template_tail)"
    by (simp add: ctx)
  have g: "retrieve ?r [63] 4 = Inr [?p]"
    by (simp add: retrieve_def echo_rag_def dedup_loop.simps)
  have ne: "build_prompt [?p] [63] \<noteq> []"
    by (simp add: build_prompt_def template_head_def)
  have rm: "py_remove [111, 107] (build_prompt [?p] [63]) = [111, 107]"
    by (simp add: build_prompt_def template_head_def)
  from t1 g have gen: "generate ?r [63] =
        (case llm ?r (build_prompt [?p] [63]) of
           Inl e \<Rightarrow> Inr (GenError (exc_str e))
         | Inr response \<Rightarrow>
             Inr (GenAnswer [63]
                    (if contains response (build_prompt [?p] [63])
                     then py_strip (py_remove response (build_prompt [?p] [63]))
                     else response)
                    [?p] (build_context [?p])))"
    by blast
  have reply: "llm ?r (build_prompt [?p] [63]) = Inr (build_prompt [?p] [63] @ [111, 107])"
    by (simp add: echo_rag_def)
  have cont: "contains (build_prompt [?p] [63] @ [111, 107]) (build_prompt [?p] [63])"
    by (rule contains_append)
  have "py_remove (build_prompt [?p] [63] @ [111, 107]) (build_prompt [?p] [63]) =
      py_remove [111, 107] (build_prompt [?p] [63])"
    using ne by (rule py_remove_append)
  with rm have rem:
    "py_remove (build_prompt [?p] [63] @ [111, 107]) (build_prompt [?p] [63]) = [111, 107]"
    by (simp only:)
  have st: "py_strip [111, 107] = [111, 107]"
    by (simp add: py_strip_def isspace_def)
  have h: "generate ?r [63] =
      Inr (GenAnswer [63] [111, 107] [?p]
            [91, 49, 93, 32, 84, 65288, 116, 65289, 65306, 97, 98, 99, 46, 46, 46])"
    by (simp only: gen reply sum.case cont if_True rem st ctx)
  from a b c d e f g h show ?thesis by (intro conjI)
qed

section \<open>The stored answer and the session history\<close>

lemma startswith_length: "startswith xs ys \<Longrightarrow> length ys \<le> length xs"
  by (induction xs ys rule: startswith.induct) auto

lemma py_find_le: "py_find s sub = Some i \<Longrightarrow> i + length sub \<le> length s"
proof (induction s arbitrary: i)
  case Nil
  then show ?case by (simp split: if_splits)
next
  case (Cons c cs)
  show ?case
  proof (cases "startswith (c # cs) sub")
    case True
    with Cons.prems startswith_length [of "c # cs" sub] show ?thesis by simp
  next
    case False
    with Cons.prems obtain j where "py_find cs sub = Some j" "i = Suc j" by auto
    with Cons.IH [of j] show ?thesis by simp
  qed
qed

lemma contains_length: "contains s sub \<Longrightarrow> length sub \<le> length s"
  using py_find_le [of s sub] by (auto simp: contains_def)

lemma generate_fixed_reply:
  assumes "length reply < 142"
  shows "generate (example_rag docs (Inr reply)) q =
     Inr (GenAnswer q reply (take 3 (dedup_loop (take 4 docs) {} []))
            (build_context (take 3 (dedup_loop (take 4 docs) {} []))))"
proof -
  let ?docs = "take 3 (dedup_loop (take 4 docs) {} [])"
  have "142 \<le> length (build_prompt ?docs q)"
    by (simp add: build_prompt_def template_head_def)
  with assms have "\<not> contains reply (build_prompt ?docs q)"
    using contains_length [of reply "build_prompt ?docs q"] by auto
  then show ?thesis
    by (simp add: generate_def retrieve_def example_rag_def Let_def)
qed

lemma clean_answer_end_first: "clean_answer (end_marker @ xs) = []"
  by (simp add: clean_eval)

text \<open>
  Claim C5. After a successful generation the stored text of the assistant turn is the
  first 500 characters of the raw answer when the cleaned answer is shorter than 50
  characters and the raw answer longer than 100, and the cleaned answer otherwise; a raw
  answer of at most 500 characters is its own first 500 characters.
\<close>

theorem stored_answer_fallback:
  assumes "submit" and "user_input \<noteq> []"
    and "generate r user_input = Inr (GenAnswer q raw_answer srcs ctx)"
  shows "msg_content (last (messages (on_submit r k_value submit user_input st))) =
           (if length (clean_answer raw_answer) < 50 \<and> 100 < length raw_answer
            then take 500 raw_answer else clean_answer raw_answer) \<and>
         (length raw_answer \<le> 500 \<longrightarrow> take 500 raw_answer = raw_answer)"
  using assms by (simp add: on_submit_def stored_answer_def Let_def)

lemma generate_example_reply:
  "generate (example_rag [] (Inr example_reply)) [63] =
     Inr (GenAnswer [63] example_reply [] [])"
proof -
  have "length example_reply < 142" by (simp add: example_reply_def end_marker_def)
  then show ?thesis
    by (simp add: generate_fixed_reply build_context_def)
qed

text \<open>
  Claim C5 at a raw answer of 104 characters that is cleaned to the empty string: the
  raw answer itself is stored.
\<close>

theorem stored_answer_fallback_witness:
  "generate (example_rag [] (Inr example_reply)) [63] = Inr (GenAnswer [63] example_reply [] []) \<and>
   length (clean_answer example_reply) < 50 \<and> 100 < length example_reply \<and>
   msg_content (last (messages
      (on_submit (example_rag [] (Inr example_reply)) 3 True [63] empty_session))) = example_reply"
proof -
  have ev: "clean_answer example_reply = []"
    by (simp add: example_reply_def clean_answer_end_first)
  have len: "length example_reply = 104" by (simp add: example_reply_def end_marker_def)
  have ne: "[63::nat] \<noteq> []" by simp
  from stored_answer_fallback [OF TrueI ne generate_example_reply, of 3 empty_session] ev len
  have "msg_content (last (messages
      (on_submit (example_rag [] (Inr example_reply)) 3 True [63] empty_session))) = example_reply"
    by simp
  with generate_example_reply ev len show ?thesis by simp
qed

text \<open>
  Claim C8 as stated fails where it says that the assistant turn of a successful
  generation carries the cleaned answer. The model returns the end marker followed by
  120 letters; the generation succeeds, the cleaned answer is empty, and the appended
  assistant turn carries the 124 characters of the raw answer.
\<close>

theorem submit_stores_raw_prefix:
  "generate (example_rag [] (Inr (end_marker @ replicate 120 98))) [63] =
     Inr (GenAnswer [63] (end_marker @ replicate 120 98) [] []) \<and>
   clean_answer (end_marker @ replicate 120 98) = [] \<and>
   msg_content (last (messages
     (on_submit (example_rag [] (Inr (end_marker @ replicate 120 98))) 3 True [63]
        empty_session))) = end_marker @ replicate 120 98 \<and>
   msg_content (last (messages
     (on_submit (example_rag [] (Inr (end_marker @ replicate 120 98))) 3 True [63]
        empty_session))) \<noteq> clean_answer (end_marker @ replicate 120 98)"
proof -
  let ?raw = "end_marker @ replicate 120 98"
  have len: "length ?raw = 124" by (simp add: end_marker_def)
  then have g: "generate (example_rag [] (Inr ?raw)) [63] = Inr (GenAnswer [63] ?raw [] [])"
    by (simp add: generate_fixed_reply build_context_def)
  have ev: "clean_answer ?raw = []" by (rule clean_answer_end_first)
  have m: "msg_content (last (messages
      (on_submit (example_rag [] (Inr ?raw)) 3 True [63] empty_session))) = ?raw"
    using len by (simp add: on_submit_def g stored_answer_def ev)
  have "?raw \<noteq> []" by (simp add: end_marker_def)
  with g ev m show ?thesis by simp
qed

text \<open>
  Claim C8, as amended. A submission with a non-empty question appends exactly two
  turns: the user turn, and an assistant turn. When \<open>generate\<close> returns an answer, the
  assistant turn carries the cleaned answer, or the first 500 characters of the raw
  answer when the cleaned answer is shorter than 50 characters and the raw answer
  longer than 100, and for each source its chapter title, its type and its content,
  with the defaults for a missing title (U+672A U+77E5) and a missing type (U+6B63
  U+6587). When the model call failed inside \<open>generate\<close>, the assistant turn carries the
  apology followed by the text of the KeyError for the key \<^verbatim>\<open>answer\<close>; when \<open>generate\<close>
  itself raised, the apology followed by the text of that exception; in both cases
  without cited passages.
\<close>

theorem submit_appends_two_turns:
  assumes "submit" and "user_input \<noteq> []"
  shows "messages (on_submit r k_value submit user_input st) =
           messages st @
             [\<lparr> msg_role = User, msg_content = user_input, msg_sources = None \<rparr>,
              (case generate r user_input of
                 Inr (GenAnswer q raw_answer srcs ctx) \<Rightarrow>
                   \<lparr> msg_role = Assistant,
                     msg_content =
                       (if length (clean_answer raw_answer) < 50 \<and> 100 < length raw_answer
                        then take 500 raw_answer else clean_answer raw_answer),
                     msg_sources =
                       Some (map (\<lambda>d.
                         \<lparr> src_chapter = (case metadata d ''chapter_title'' of
                                            Some v \<Rightarrow> v | None \<Rightarrow> StrV [26410, 30693]),
                           src_type = (case metadata d ''type'' of
                                         Some v \<Rightarrow> v | None \<Rightarrow> StrV [27491, 25991]),
                           src_content = page_content d \<rparr>) srcs) \<rparr>
               | Inr (GenError err) \<Rightarrow>
                   \<lparr> msg_role = Assistant,
                     msg_content = apology @ [39, 97, 110, 115, 119, 101, 114, 39],
                     msg_sources = None \<rparr>
               | Inl e \<Rightarrow>
                   \<lparr> msg_role = Assistant, msg_content = apology @ exc_str e,
                     msg_sources = None \<rparr>)] \<and>
         length (messages (on_submit r k_value submit user_input st)) =
           length (messages st) + 2"
proof (cases "generate r user_input")
  case (Inl e)
  with assms show ?thesis
    by (simp add: on_submit_def failure_turn_def)
next
  case (Inr res)
  show ?thesis
  proof (cases res)
    case (GenAnswer q raw_answer srcs ctx)
    have "cite = (\<lambda>d.
        \<lparr> src_chapter = (case metadata d ''chapter_title'' of
                           Some v \<Rightarrow> v | None \<Rightarrow> StrV [26410, 30693]),
          src_type = (case metadata d ''type'' of
                        Some v \<Rightarrow> v | None \<Rightarrow> StrV [27491, 25991]),
          src_content = page_content d \<rparr>)"
      by (rule ext) (simp add: cite_def)
    with GenAnswer Inr assms show ?thesis
      by (simp add: on_submit_def stored_answer_def Let_def)
  next
    case (GenError err)
    with Inr assms show ?thesis
      by (simp add: on_submit_def failure_turn_def key_error_answer_def)
  qed
qed

lemma generate_example_failure:
  "generate (example_rag example_docs (Inl (PyException [111, 111, 109]))) [63] =
     Inr (GenError [111, 111, 109])"
  by (simp add: generate_def retrieve_def example_rag_def Let_def)

lemma generate_example_success:
  "generate (example_rag [example_passage] (Inr [111, 107])) [63] =
     Inr (GenAnswer [63] [111, 107] [example_passage] (build_context [example_passage]))"
  by (simp add: generate_fixed_reply dedup_loop.simps)

lemma generate_broken_search:
  "generate (broken_rag (PyException [100, 111, 119, 110])) [63] =
     Inl (PyException [100, 111, 119, 110])"
  by (simp add: generate_def retrieve_def broken_rag_def)

text \<open>
  Claim C8, as amended, at three engines and a new session. With a model that answers
  \<^verbatim>\<open>ok\<close> on a passage with title \<^verbatim>\<open>T\<close>, type \<^verbatim>\<open>t\<close> and content \<^verbatim>\<open>abc\<close>, the history
  becomes the user turn and an assistant turn with \<^verbatim>\<open>ok\<close> and that source. With a model
  call that raises, it becomes the user turn and the apology followed by \<^verbatim>\<open>'answer'\<close>.
  With a search that raises with the text \<^verbatim>\<open>down\<close>, it becomes the user turn and the
  apology followed by \<^verbatim>\<open>down\<close>.
\<close>

theorem submit_appends_two_turns_witness:
  "messages (on_submit (example_rag [example_passage] (Inr [111, 107])) 3 True [63]
      empty_session) =
     [\<lparr> msg_role = User, msg_content = [63], msg_sources = None \<rparr>,
      \<lparr> msg_role = Assistant, msg_content = [111, 107],
        msg_sources = Some [\<lparr> src_chapter = StrV [84], src_type = StrV [116],
                               src_content = [97, 98, 99] \<rparr>] \<rparr>] \<and>
   messages (on_submit (example_rag example_docs (Inl (PyException [111, 111, 109]))) 3 True
      [63] empty_session) =
     [\<lparr> msg_role = User, msg_content = [63], msg_sources = None \<rparr>,
      \<lparr> msg_role = Assistant,
        msg_content =
          [25265, 27465, 65292, 26597, 38405, 20856, 31821, 26102, 36935, 21040, 38459,
           30861, 65306, 39, 97, 110, 115, 119, 101, 114, 39],
        msg_sources = None \<rparr>] \<and>
   messages (on_submit (broken_rag (PyException [100, 111, 119, 110])) 3 True [63]
      empty_session) =
     [\<lparr> msg_role = User, msg_content = [63], msg_sources = None \<rparr>,
      \<lparr> msg_role = Assistant,
        msg_content =
          [25265, 27465, 65292, 26597, 38405, 20856, 31821, 26102, 36935, 21040, 38459,
           30861, 65306, 100, 111, 119, 110],
        msg_sources = None \<rparr>]"
proof -
  have ne: "[63::nat] \<noteq> []" by simp
  have ok: "clean_answer [111, 107] = [111, 107]" by (simp add: clean_eval)
  have pt: "metadata example_passage ''chapter_title'' = Some (StrV [84])"
    and pk: "metadata example_passage ''type'' = Some (StrV [116])"
    and pc: "page_content example_passage = [97, 98, 99]"
    by (simp_all add: example_passage_def)
  have a: "messages (on_submit (example_rag [example_passage] (Inr [111, 107])) 3 True [63]
      empty_session) =
     [\<lparr> msg_role = User, msg_content = [63], msg_sources = None \<rparr>,
      \<lparr> msg_role = Assistant, msg_content = [111, 107],
        msg_sources = Some [\<lparr> src_chapter = StrV [84], src_type = StrV [116],
                               src_content = [97, 98, 99] \<rparr>] \<rparr>]"
    using submit_appends_two_turns [OF TrueI ne,
        of "example_rag [example_passage] (Inr [111, 107])" 3 empty_session]
    by (simp add: generate_example_success ok empty_session_def pt pk pc)
  have b: "messages (on_submit (example_rag example_docs (Inl (PyException [111, 111, 109])))
      3 True [63] empty_session) =
     [\<lparr> msg_role = User, msg_content = [63], msg_sources = None \<rparr>,
      \<lparr> msg_role = Assistant,
        msg_content =
          [25265, 27465, 65292, 26597, 38405, 20856, 31821, 26102, 36935, 21040, 38459,
           30861, 65306, 39, 97, 110, 115, 119, 101, 114, 39],
        msg_sources = None \<rparr>]"
    using submit_appends_two_turns [OF TrueI ne,
        of "example_rag example_docs (Inl (PyException [111, 111, 109]))" 3 empty_session]
    by (simp add: generate_example_failure empty_session_def apology_def)
  have c: "messages (on_submit (broken_rag (PyException [100, 111, 119, 110])) 3 True [63]
      empty_session) =
     [\<lparr> msg_role = User, msg_content = [63], msg_sources = None \<rparr>,
      \<lparr> msg_role = Assistant,
        msg_content =
          [25265, 27465, 65292, 26597, 38405, 20856, 31821, 26102, 36935, 21040, 38459,
           30861, 65306, 100, 111, 119, 110],
        msg_sources = None \<rparr>]"
    using submit_appends_two_turns [OF TrueI ne,
        of "broken_rag (PyException [100, 111, 119, 110])" 3 empty_session]
    by (simp add: generate_broken_search empty_session_def apology_def)
  from a b c show ?thesis by (intro conjI)
qed

text \<open>
  Claim C9. The slider value does not reach the result: the submit block gives the same
  session state for any two slider values, and \<open>generate\<close> reads the search only at
  \<open>k = 4\<close>.
\<close>

theorem slider_has_no_effect:
  "on_submit r k1 submit user_input st = on_submit r k2 submit user_input st \<and>
   generate r query =
     generate (r\<lparr>similarity_search := \<lambda>q k. similarity_search r q 4\<rparr>) query"
  by (simp add: on_submit_def generate_def retrieve_def split: sum.splits)

end
